theory Spec2Isabelle
  imports Complex_Main "HOL-Library.Log_Nat"
begin

section \<open>The webview panel controller of vscode-csv (src/webview/index.ts)\<close>

text \<open>
  The class \<open>Webview\<close> owns at most one webview panel of the editor host and the
  message channel to the page shown inside it. The class is a thin adapter over the
  host's panel API, so the embedding has two layers: a small model of the host
  primitives the class calls (panels, event registrations, disposables, promises,
  notifications, the random source), and above it one definition per method of the
  class, each following the statements of the source in their order.

  Objects live in stores indexed by natural numbers: a panel handle is an index into
  \<open>panels\<close>, a \<open>Webview\<close> object an index into \<open>instances\<close>, a promise an index
  into \<open>promises\<close>. The static field \<open>Webview.currentPanel\<close> is the field
  \<open>currentPanel\<close> of the world.
\<close>

subsection \<open>Data of the host\<close>

type_synonym Uri = string

datatype ViewColumn = Active | Beside | Column nat

record WebviewOptions =
  enableScripts :: bool
  localResourceRoots :: "Uri list"

record WebviewPanel =
  viewType :: string
  title :: string
  viewColumn :: ViewColumn
  options :: WebviewOptions
  html :: string
  cspSource :: string
  visible :: bool
  isDisposed :: bool

text \<open>An envelope of the wire format \<open>{ command: string, data?: T }\<close>.\<close>

record Envelope =
  command :: string
  data :: "string option"

text \<open>
  The four closures the class hands to the host as event listeners:
  \<^item> \<open>() => this.dispose()\<close> of the object \<open>w\<close> (constructor, line 105);
  \<^item> \<open>this.handleMessage\<close> (constructor, line 108);
  \<^item> \<open>e => { if (this.panel.visible) { this.update(); } }\<close> of \<open>w\<close> (line 111);
  \<^item> the handshake closure of \<open>render\<close> holding \<open>resolve\<close> and \<open>reject\<close> of
    promise \<open>k\<close> (lines 60 to 62).
\<close>

datatype Listener =
  DisposeListener nat
| HandleMessageListener
| ViewStateListener nat
| HandshakeListener nat

datatype Event = OnDidDispose | OnDidReceiveMessage | OnDidChangeViewState

fun event_of :: "Listener \<Rightarrow> Event" where
  "event_of (DisposeListener w) = OnDidDispose"
| "event_of HandleMessageListener = OnDidReceiveMessage"
| "event_of (ViewStateListener w) = OnDidChangeViewState"
| "event_of (HandshakeListener k) = OnDidReceiveMessage"

text \<open>
  A registration is one listener attached to one event of one panel. Its \<open>reg_id\<close> is
  the \<open>vscode.Disposable\<close> the host returns for it.
\<close>

record Registration =
  reg_id :: nat
  reg_panel :: nat
  reg_listener :: Listener

datatype PromiseState = Pending | Fulfilled | Rejected

datatype Completion = Normal | Throw

text \<open>An object of the class: its two constructor parameters and the array \<open>disposables\<close>.\<close>

record Webview =
  panel :: nat
  extensionUri :: Uri
  disposables :: "nat list"

text \<open>
  The world. \<open>faulty\<close> lists the disposables whose \<open>dispose()\<close> throws; the host's own
  registrations never do, so the editor's world has \<open>faulty = []\<close>. \<open>disposeCalls\<close>,
  \<open>errorMessages\<close>, \<open>posted\<close> and \<open>revealed\<close> log the calls made to
  \<open>Disposable.dispose\<close>, \<open>window.showErrorMessage\<close>, \<open>webview.postMessage\<close> and
  \<open>panel.reveal\<close>. \<open>randomSource\<close> is the sequence of values \<open>Math.random()\<close>
  returns (doubles, held as the reals they denote), \<open>randomCalls\<close> the number of
  values drawn so far. \<open>hostCspSource\<close> is the content security policy source the
  host gives a new panel, and \<open>hostWebviewUri\<close> the host's translation of a local
  URI into one that the page of a panel can load.
\<close>

record World =
  panels :: "nat \<Rightarrow> WebviewPanel"
  nextPanel :: nat
  instances :: "nat \<Rightarrow> Webview"
  nextWebview :: nat
  currentPanel :: "nat option"
  listeners :: "Registration list"
  nextRegistration :: nat
  faulty :: "nat list"
  disposeCalls :: "nat list"
  promises :: "PromiseState list"
  errorMessages :: "string option list"
  posted :: "(nat \<times> Envelope) list"
  revealed :: "(nat \<times> ViewColumn) list"
  randomSource :: "nat \<Rightarrow> real"
  randomCalls :: nat
  hostCspSource :: string
  hostWebviewUri :: "nat \<Rightarrow> Uri \<Rightarrow> Uri"

subsection \<open>Primitives of the host\<close>

text \<open>\<open>vscode.window.createWebviewPanel(viewType, title, showOptions, options)\<close>.\<close>

definition createWebviewPanel ::
  "string \<Rightarrow> string \<Rightarrow> ViewColumn \<Rightarrow> WebviewOptions \<Rightarrow> World \<Rightarrow> nat \<times> World" where
  "createWebviewPanel vt t col opts s =
     (nextPanel s,
      s\<lparr>panels := (panels s)(nextPanel s :=
             \<lparr>viewType = vt, title = t, viewColumn = col, options = opts, html = [],
              cspSource = hostCspSource s, visible = True, isDisposed = False\<rparr>),
        nextPanel := Suc (nextPanel s)\<rparr>)"

text \<open>\<open>panel.reveal(viewColumn)\<close>: the call is logged; the host reports the new view
  state later through \<open>onDidChangeViewState\<close>.\<close>

definition reveal :: "nat \<Rightarrow> ViewColumn \<Rightarrow> World \<Rightarrow> World" where
  "reveal p col s = s\<lparr>revealed := revealed s @ [(p, col)]\<rparr>"

text \<open>
  \<open>event(listener, null, disposables)\<close>: the listener is attached to the event of
  panel \<open>p\<close>, and the disposable of the registration is pushed onto the array
  \<open>disposables\<close> of the object \<open>w\<close>.
\<close>

definition register :: "nat \<Rightarrow> Listener \<Rightarrow> nat \<Rightarrow> World \<Rightarrow> World" where
  "register p l w s =
     s\<lparr>listeners := listeners s @ [\<lparr>reg_id = nextRegistration s, reg_panel = p, reg_listener = l\<rparr>],
       nextRegistration := Suc (nextRegistration s),
       instances := (instances s)(w := (instances s w)
          \<lparr>disposables := disposables (instances s w) @ [nextRegistration s]\<rparr>)\<rparr>"

text \<open>
  \<open>disposable.dispose()\<close>: the registration is detached. A faulty disposable
  throws instead and detaches nothing.
\<close>

definition Disposable_dispose :: "nat \<Rightarrow> World \<Rightarrow> Completion \<times> World" where
  "Disposable_dispose d s =
     (if d \<in> set (faulty s) then (Throw, s\<lparr>disposeCalls := disposeCalls s @ [d]\<rparr>)
      else (Normal, s\<lparr>listeners := filter (\<lambda>r. reg_id r \<noteq> d) (listeners s),
                      disposeCalls := disposeCalls s @ [d]\<rparr>))"

text \<open>\<open>panel.webview.postMessage(message)\<close>.\<close>

definition webview_postMessage :: "nat \<Rightarrow> Envelope \<Rightarrow> World \<Rightarrow> World" where
  "webview_postMessage p m s = s\<lparr>posted := posted s @ [(p, m)]\<rparr>"

text \<open>\<open>vscode.window.showErrorMessage(text)\<close>.\<close>

definition showErrorMessage :: "string option \<Rightarrow> World \<Rightarrow> World" where
  "showErrorMessage t s = s\<lparr>errorMessages := errorMessages s @ [t]\<rparr>"

text \<open>The setters \<open>panel.webview.html = v\<close> and \<open>panel.title = v\<close>.\<close>

definition set_html :: "nat \<Rightarrow> string \<Rightarrow> World \<Rightarrow> World" where
  "set_html p v s = s\<lparr>panels := (panels s)(p := (panels s p)\<lparr>html := v\<rparr>)\<rparr>"

definition set_title :: "nat \<Rightarrow> string \<Rightarrow> World \<Rightarrow> World" where
  "set_title p v s = s\<lparr>panels := (panels s)(p := (panels s p)\<lparr>title := v\<rparr>)\<rparr>"

text \<open>
  \<open>resolve()\<close> and \<open>reject()\<close> of promise \<open>k\<close>: a promise settles once; a later
  call on a settled promise changes nothing.
\<close>

definition settle :: "nat \<Rightarrow> PromiseState \<Rightarrow> World \<Rightarrow> World" where
  "settle k v s =
     (if k < length (promises s) \<and> promises s ! k = Pending
      then s\<lparr>promises := (promises s)[k := v]\<rparr> else s)"

text \<open>\<open>new Promise(...)\<close>: a fresh pending promise.\<close>

definition new_Promise :: "World \<Rightarrow> nat \<times> World" where
  "new_Promise s = (length (promises s), s\<lparr>promises := promises s @ [Pending]\<rparr>)"

text \<open>\<open>Math.random()\<close>.\<close>

definition Math_random :: "World \<Rightarrow> real \<times> World" where
  "Math_random s = (randomSource s (randomCalls s), s\<lparr>randomCalls := Suc (randomCalls s)\<rparr>)"

text \<open>
  \<open>vscode.Uri.joinPath(base, ...segments)\<close> on URIs written as strings: the path
  segments are appended. \<open>webview.asWebviewUri(uri)\<close> is the host's translation.
\<close>

definition joinPath :: "Uri \<Rightarrow> string list \<Rightarrow> Uri" where
  "joinPath base segs = foldl (\<lambda>u seg. u @ ''/'' @ seg) base segs"

definition asWebviewUri :: "nat \<Rightarrow> Uri \<Rightarrow> World \<Rightarrow> Uri" where
  "asWebviewUri p u s = hostWebviewUri s p u"

text \<open>\<open>String.prototype.charAt\<close>: the empty string outside the range.\<close>

definition charAt :: "string \<Rightarrow> int \<Rightarrow> string" where
  "charAt str i = (if 0 \<le> i \<and> i < int (length str) then [str ! nat i] else [])"

text \<open>
  Arithmetic on Numbers. A Number is an IEEE 754 double; the model holds the real it
  denotes. \<open>exponent x\<close> is the binary exponent of a positive real, the integer \<open>e\<close>
  with \<open>2\<^bsup>e\<^esup> \<le> x < 2\<^bsup>e + 1\<^esup>\<close>, computed from the bit length of an integer.
  \<open>binary64 x\<close> is the double nearest to the real \<open>x\<close>: with \<open>e\<close> the exponent of
  \<open>|x|\<close>, and \<open>e = -1022\<close> in the subnormal range, the doubles around \<open>x\<close> are the
  multiples of \<open>2\<^bsup>e - 52\<^esup>\<close>, and a tie goes to the even multiple. Overflow is left
  out: the model is for magnitudes below \<open>2\<^bsup>1024\<^esup>\<close>. The product \<open>a * b\<close> of two
  Numbers is the exact product rounded once, and \<open>Math.floor\<close> is exact.
\<close>

definition roundTiesToEven :: "real \<Rightarrow> int" where
  "roundTiesToEven y =
     (let f = \<lfloor>y\<rfloor> in
        if y - of_int f < 1 / 2 then f
        else if 1 / 2 < y - of_int f then f + 1
        else if even f then f else f + 1)"

definition exponent :: "real \<Rightarrow> int" where
  "exponent x = (if 1 \<le> x then bitlen \<lfloor>x\<rfloor> - 1 else - bitlen (\<lceil>1 / x\<rceil> - 1))"

definition binary64 :: "real \<Rightarrow> real" where
  "binary64 x =
     (if x = 0 then 0
      else let e = max (exponent \<bar>x\<bar>) (- 1022);
               ulp = 2 powi (e - 52)
           in sgn x * (of_int (roundTiesToEven (\<bar>x\<bar> / ulp)) * ulp))"

definition multiply :: "real \<Rightarrow> real \<Rightarrow> real" where
  "multiply a b = binary64 (a * b)"

definition Math_floor :: "real \<Rightarrow> int" where
  "Math_floor x = \<lfloor>x\<rfloor>"

subsection \<open>Content: nonce and markup\<close>

text \<open>
  \<open>generateNonce\<close> (lines 371 to 378): 32 characters, each picked from \<open>possible\<close>
  at the index \<open>Math.floor(Math.random() * possible.length)\<close>. The first variant of
  the class imports the function from \<open>./utils\<close>, which is not among the sources;
  the method of the second variant stands for it. \<open>possible.length\<close> is the Number
  62, and the product is the product of two Numbers.
\<close>

definition possible :: string where
  "possible = ''ABCDEFGHIJKLMNOPQRSTUVWXYZabcdefghijklmnopqrstuvwxyz0123456789''"

function generateNonce_loop :: "nat \<Rightarrow> string \<Rightarrow> World \<Rightarrow> string \<times> World" where
  "generateNonce_loop i nonce s =
     (if i < 32 then
        (case Math_random s of (r, s') \<Rightarrow>
           generateNonce_loop (i + 1)
             (nonce @ charAt possible (Math_floor (multiply r (real (length possible))))) s')
      else (nonce, s))"
  by pat_completeness auto
termination
  by (relation "measure (\<lambda>(i, nonce, s). 32 - i)") auto

definition generateNonce :: "World \<Rightarrow> string \<times> World" where
  "generateNonce s = generateNonce_loop 0 [] s"

text \<open>\<open>getWebviewUri(...pathSegments)\<close> of the object \<open>w\<close> (lines 155 to 158).\<close>

definition getWebviewUri :: "nat \<Rightarrow> string list \<Rightarrow> World \<Rightarrow> Uri" where
  "getWebviewUri w pathSegments s =
     asWebviewUri (panel (instances s w)) (joinPath (extensionUri (instances s w)) pathSegments) s"

text \<open>The template literal of \<open>getHtmlForWebview\<close> (lines 169 to 191), first variant.\<close>

definition html_template :: "string \<Rightarrow> Uri \<Rightarrow> string" where
  "html_template nonce scriptUri =
     ''<!DOCTYPE html>\<newline>'' @
     ''        <html lang=\"en\">\<newline>'' @
     ''            <head>\<newline>'' @
     ''                <meta charset=\"UTF-8\">\<newline>'' @
     ''                <meta name=\"viewport\" content=\"width=device-width, initial-scale=1.0\">\<newline>'' @
     ''\<newline>'' @
     ''                <!--\<newline>'' @
     ''                    Use a content security policy to only allow loading images from https or from our extension directory,\<newline>'' @
     ''                    and only allow scripts that have a specific nonce.\<newline>'' @
     ''                -->\<newline>'' @
     ''                <meta http-equiv=\"Content-Security-Policy\" content=\"default-src 'none'; script-src 'nonce-'' @ nonce @ [CHR 0x27] @ '';\">\<newline>'' @
     ''\<newline>'' @
     ''                <script type=\"module\" nonce=\"'' @ nonce @ ''\" src=\"'' @ scriptUri @ ''\"></script>\<newline>'' @
     ''\<newline>'' @
     ''                <title>Webview</title>\<newline>'' @
     ''            </head>\<newline>'' @
     ''\<newline>'' @
     ''            <body>\<newline>'' @
     ''                <vscode-text-field id=\"search\" type=\"text\" placeholder=\"Search...\"></vscode-text-field>\<newline>'' @
     ''                <table id=\"table\"></table>\<newline>'' @
     ''            </body>\<newline>'' @
     ''        </html>\<newline>'' @
     ''        ''"

text \<open>\<open>getHtmlForWebview()\<close> of the object \<open>w\<close> (lines 161 to 192).\<close>

definition getHtmlForWebview :: "nat \<Rightarrow> World \<Rightarrow> string \<times> World" where
  "getHtmlForWebview w s =
     (let scriptUri = getWebviewUri w [''out'', ''webview.js''] s
      in case generateNonce s of (nonce, s') \<Rightarrow> (html_template nonce scriptUri, s'))"

text \<open>\<open>update()\<close> of the object \<open>w\<close> (lines 150 to 152).\<close>

definition update :: "nat \<Rightarrow> World \<Rightarrow> World" where
  "update w s =
     (case getHtmlForWebview w s of (doc, s') \<Rightarrow> set_html (panel (instances s' w)) doc s')"

text \<open>
  The second variant of the class (lines 196 to 389) differs in its content: the
  markup also names the panel's origin and two style sheets, and \<open>update\<close> sets the
  title as well (lines 308 to 311).
\<close>

definition html_template2 :: "string \<Rightarrow> string \<Rightarrow> Uri \<Rightarrow> Uri \<Rightarrow> Uri \<Rightarrow> string" where
  "html_template2 nonce csp cssResetUri styleUri scriptUri =
     ''<!DOCTYPE html>\<newline>'' @
     ''        <html lang=\"en\">\<newline>'' @
     ''            <head>\<newline>'' @
     ''                <meta charset=\"UTF-8\">\<newline>'' @
     ''                <meta name=\"viewport\" content=\"width=device-width, initial-scale=1.0\">\<newline>'' @
     ''\<newline>'' @
     ''                <!--\<newline>'' @
     ''                    Use a content security policy to only allow loading images from https or from our extension directory,\<newline>'' @
     ''                    and only allow scripts that have a specific nonce.\<newline>'' @
     ''                -->\<newline>'' @
     ''                <meta http-equiv=\"Content-Security-Policy\" content=\"default-src 'none'; style-src '' @ csp @ ''; img-src '' @ csp @ '' https:; script-src 'nonce-'' @ nonce @ [CHR 0x27] @ '';\">\<newline>'' @
     ''\<newline>'' @
     ''                <link href=\"'' @ cssResetUri @ ''\" rel=\"stylesheet\">\<newline>'' @
     replicate 4 (CHR 0x09) @ ''<link href=\"'' @ styleUri @ ''\" rel=\"stylesheet\">\<newline>'' @
     ''\<newline>'' @
     ''                <script type=\"module\" nonce=\"'' @ nonce @ ''\" src=\"'' @ scriptUri @ ''\"></script>\<newline>'' @
     ''\<newline>'' @
     ''                <title>Webview</title>\<newline>'' @
     ''            </head>\<newline>'' @
     ''\<newline>'' @
     ''            <body>\<newline>'' @
     ''                <h1>Hello World!</h1>\<newline>'' @
     ''            </body>\<newline>'' @
     ''        </html>\<newline>'' @
     ''        ''"

definition getHtmlForWebview2 :: "nat \<Rightarrow> World \<Rightarrow> string \<times> World" where
  "getHtmlForWebview2 w s =
     (let scriptUri = getWebviewUri w [''media'', ''index.js''] s;
          styleUri = getWebviewUri w [''media'', ''vscode.css''] s;
          cssResetUri = getWebviewUri w [''media'', ''reset.css''] s
      in case generateNonce s of (nonce, s') \<Rightarrow>
           (html_template2 nonce (cspSource (panels s' (panel (instances s' w))))
              cssResetUri styleUri scriptUri, s'))"

definition update2 :: "nat \<Rightarrow> World \<Rightarrow> World" where
  "update2 w s =
     (let s1 = set_title (panel (instances s w)) ''WEBVIEW'' s
      in case getHtmlForWebview2 w s1 of (doc, s') \<Rightarrow> set_html (panel (instances s' w)) doc s')"

subsection \<open>Messages\<close>

text \<open>\<open>handleMessage(message)\<close> (lines 138 to 144): the \<open>switch\<close> has the one case
  \<open>'error'\<close> and no default.\<close>

definition handleMessage :: "Envelope \<Rightarrow> World \<Rightarrow> World" where
  "handleMessage message s =
     (if command message = ''error'' then showErrorMessage (data message) s else s)"

text \<open>The static \<open>postMessage(message)\<close> (lines 75 to 77), with its optional chaining.\<close>

definition postMessage :: "Envelope \<Rightarrow> World \<Rightarrow> World" where
  "postMessage message s =
     (case currentPanel s of
        None \<Rightarrow> s
      | Some w \<Rightarrow> webview_postMessage (panel (instances s w)) message s)"

subsection \<open>Create, render, revive\<close>

definition Webview_title :: string where
  "Webview_title = ''Table Preview''"

definition Webview_viewType :: string where
  "Webview_viewType = ''tablePreview''"

definition Webview_viewColumn :: ViewColumn where
  "Webview_viewColumn = Beside"

text \<open>\<open>getOptions(extensionUri)\<close> (lines 83 to 90).\<close>

definition getOptions :: "Uri \<Rightarrow> WebviewOptions" where
  "getOptions uri = \<lparr>enableScripts = True, localResourceRoots = [joinPath uri [''out'']]\<rparr>"

text \<open>
  The constructor (lines 96 to 114), run on a fresh object whose \<open>disposables\<close> is
  the empty array of the field initialiser (line 120). It returns the new object.
\<close>

definition new_Webview :: "nat \<Rightarrow> Uri \<Rightarrow> World \<Rightarrow> nat \<times> World" where
  "new_Webview p uri s =
     (let w = nextWebview s;
          s0 = s\<lparr>instances := (instances s)(w := \<lparr>panel = p, extensionUri = uri, disposables = []\<rparr>),
                 nextWebview := Suc w\<rparr>;
          s1 = update w s0;
          s2 = register p (DisposeListener w) w s1;
          s3 = register p HandleMessageListener w s2;
          s4 = register p (ViewStateListener w) w s3
      in (w, s4))"

text \<open>\<open>create(extensionUri, viewColumn)\<close> (lines 32 to 43).\<close>

definition create :: "Uri \<Rightarrow> ViewColumn \<Rightarrow> World \<Rightarrow> nat \<times> World" where
  "create uri col s =
     (case createWebviewPanel Webview_viewType Webview_title col (getOptions uri) s of
        (p, s') \<Rightarrow> new_Webview p uri s')"

text \<open>
  \<open>render(extensionUri, viewColumn)\<close> (lines 49 to 64). It returns the promise. The
  executor of the promise runs at once; \<open>this.currentPanel?.\<close> registers nothing
  when no panel is tracked.
\<close>

definition render :: "Uri \<Rightarrow> ViewColumn \<Rightarrow> World \<Rightarrow> nat \<times> World" where
  "render uri col s =
     (let s1 = (case currentPanel s of
                  Some w \<Rightarrow> reveal (panel (instances s w)) col s
                | None \<Rightarrow> (case create uri col s of (w, s') \<Rightarrow> s'\<lparr>currentPanel := Some w\<rparr>))
      in case new_Promise s1 of (k, s2) \<Rightarrow>
           (k, case currentPanel s2 of
                 None \<Rightarrow> s2
               | Some w \<Rightarrow> register (panel (instances s2 w)) (HandshakeListener k) w s2))"

text \<open>A call of \<open>render\<close> without the second argument takes its default.\<close>

definition render_default :: "Uri \<Rightarrow> World \<Rightarrow> nat \<times> World" where
  "render_default uri s = render uri Webview_viewColumn s"

text \<open>\<open>revive(panel, extensionUri)\<close> (lines 67 to 69).\<close>

definition revive :: "nat \<Rightarrow> Uri \<Rightarrow> World \<Rightarrow> World" where
  "revive p uri s = (case new_Webview p uri s of (w, s') \<Rightarrow> s'\<lparr>currentPanel := Some w\<rparr>)"

subsection \<open>Dispose\<close>

text \<open>
  The loop of \<open>dispose()\<close> (lines 126 to 131) on the array of the object \<open>w\<close>:
  \<open>pop()\<close> takes the last element off the array before its \<open>dispose()\<close> is called.
  The popped element is an object, so the test \<open>if (disposable)\<close> holds. An exception
  of \<open>disposable.dispose()\<close> leaves the loop and the method.
\<close>

function drain :: "nat \<Rightarrow> World \<Rightarrow> Completion \<times> World" where
  "drain w s =
     (if length (disposables (instances s w)) \<noteq> 0 then
        (let disposable = last (disposables (instances s w));
             s1 = s\<lparr>instances := (instances s)(w := (instances s w)
                    \<lparr>disposables := butlast (disposables (instances s w))\<rparr>)\<rparr>
         in case Disposable_dispose disposable s1 of
              (Throw, s2) \<Rightarrow> (Throw, s2)
            | (Normal, s2) \<Rightarrow> drain w s2)
      else (Normal, s))"
  by pat_completeness auto
termination
  by (relation "measure (\<lambda>(w, s). length (disposables (instances s w)))")
     (auto simp: Disposable_dispose_def split: if_splits)

declare drain.simps [simp del]

text \<open>The number of panels of the host that are not disposed.\<close>

definition live :: "World \<Rightarrow> nat" where
  "live s = card {p. p < nextPanel s \<and> \<not> isDisposed (panels s p)}"

text \<open>
  \<open>dispose()\<close> of the object \<open>w\<close> (lines 123 to 132), together with the host's
  \<open>panel.dispose()\<close> that it calls. The host marks the panel disposed and then fires
  \<open>onDidDispose\<close> on the spot: each listener \<open>() => this.dispose()\<close> attached to the
  panel runs inside the call, so \<open>dispose()\<close> is entered again from within itself.
  A second \<open>panel.dispose()\<close> on a disposed panel returns at once, and so does one on
  a handle the host has not handed out. The listeners that run are those attached
  when the event fires. The host's event emitter catches what a listener throws and
  goes on with the next listener.
\<close>

function (sequential) Webview_dispose :: "nat \<Rightarrow> World \<Rightarrow> Completion \<times> World"
  and WebviewPanel_dispose :: "nat \<Rightarrow> World \<Rightarrow> World"
  and fire_onDidDispose :: "Listener list \<Rightarrow> World \<Rightarrow> World" where
  "Webview_dispose w s =
     (let s1 = s\<lparr>currentPanel := None\<rparr>;
          s2 = WebviewPanel_dispose (panel (instances s1 w)) s1
      in drain w s2)"
| "WebviewPanel_dispose p s =
     (if p < nextPanel s \<and> \<not> isDisposed (panels s p) then
        (let s1 = s\<lparr>panels := (panels s)(p := (panels s p)\<lparr>isDisposed := True\<rparr>)\<rparr>
         in fire_onDidDispose
              (map reg_listener (filter (\<lambda>r. reg_panel r = p \<and> event_of (reg_listener r) = OnDidDispose)
                 (listeners s1))) s1)
      else s)"
| "fire_onDidDispose [] s = s"
| "fire_onDidDispose (DisposeListener w # ls) s = fire_onDidDispose ls (snd (Webview_dispose w s))"
| "fire_onDidDispose (l # ls) s = fire_onDidDispose ls s"
  by pat_completeness auto

lemma drain_frame:
  "panels (snd (drain w s)) = panels s \<and> nextPanel (snd (drain w s)) = nextPanel s
   \<and> promises (snd (drain w s)) = promises s \<and> currentPanel (snd (drain w s)) = currentPanel s"
  apply (induction w s rule: drain.induct)
  subgoal for w s
    apply (subst (1 2 3 4) drain.simps)
    apply (cases "last (disposables (instances s w)) \<in> set (faulty s)")
     apply (simp_all add: Let_def Disposable_dispose_def)
    done
  done


lemma live_drain: "live (snd (drain w s)) = live s"
  by (simp add: live_def drain_frame)

lemma live_mark: "p < nextPanel s \<Longrightarrow> \<not> isDisposed (panels s p) \<Longrightarrow>
  live (s\<lparr>panels := (panels s)(p := (panels s p)\<lparr>isDisposed := True\<rparr>)\<rparr>) < live s"
  unfolding live_def
  by (rule psubset_card_mono) auto

lemma live_partial:
  "Webview_dispose_WebviewPanel_dispose_fire_onDidDispose_dom (Inl (w, s)) \<Longrightarrow> live (snd (Webview_dispose w s)) \<le> live s"
  "Webview_dispose_WebviewPanel_dispose_fire_onDidDispose_dom (Inr (Inl (p, s'))) \<Longrightarrow> live (WebviewPanel_dispose p s') \<le> live s'"
  "Webview_dispose_WebviewPanel_dispose_fire_onDidDispose_dom (Inr (Inr (ls, s''))) \<Longrightarrow> live (fire_onDidDispose ls s'') \<le> live s''"
proof (induction w s and p s' and ls s'' rule: Webview_dispose_WebviewPanel_dispose_fire_onDidDispose.pinduct)
  case (1 w s)
  have "live (s\<lparr>currentPanel := None\<rparr>) = live s" by (simp add: live_def)
  with 1 show ?case
    by (simp add: Webview_dispose.psimps Let_def live_drain)
next
  case (2 p s)
  show ?case
  proof (cases "p < nextPanel s \<and> \<not> isDisposed (panels s p)")
    case True
    then show ?thesis
      using 2 live_mark[of p s]
      by (simp add: WebviewPanel_dispose.psimps Let_def)
  next
    case False
    then show ?thesis using 2(1) by (auto simp add: WebviewPanel_dispose.psimps)
  qed
next
  case (3 s)
  then show ?case by (simp add: fire_onDidDispose.psimps)
next
  case (4 w ls s)
  then show ?case by (simp add: fire_onDidDispose.psimps)
qed (simp_all add: fire_onDidDispose.psimps)

termination Webview_dispose
proof (relation "inv_image (less_than <*lex*> less_than <*lex*> less_than)
     (\<lambda>x. case x of Inl (w, s) \<Rightarrow> (live s, 1::nat, 0::nat)
                 | Inr (Inl (p, s)) \<Rightarrow> (live s, 0, 0)
                 | Inr (Inr (ls, s)) \<Rightarrow> (live s, 2, length ls))", goal_cases)
  case 1
  show ?case by auto
next
  case (2 w s x)
  then show ?case by (simp add: live_def)
next
  case (3 p s x)
  then show ?case by (simp add: live_mark)
next
  case (4 w ls s)
  show ?case by simp
next
  case (5 w ls s)
  then show ?case using live_partial(1)[of w s] by auto
qed simp_all


declare Webview_dispose.simps [simp del] WebviewPanel_dispose.simps [simp del]

subsection \<open>Events of the host\<close>

text \<open>The handshake closure of \<open>render\<close> (line 61) for promise \<open>k\<close>.\<close>

definition handshake :: "nat \<Rightarrow> Envelope \<Rightarrow> World \<Rightarrow> World" where
  "handshake k message s =
     (if command message = ''ready'' then settle k Fulfilled s else settle k Rejected s)"

text \<open>The view state closure of the constructor (lines 111 to 113) for the object \<open>w\<close>.\<close>

definition viewStateChanged :: "nat \<Rightarrow> World \<Rightarrow> World" where
  "viewStateChanged w s = (if visible (panels s (panel (instances s w))) then update w s else s)"

text \<open>
  The host fires \<open>webview.onDidReceiveMessage\<close> of panel \<open>p\<close> with a message: the
  listeners attached to that event of that panel run in the order of their
  registration.
\<close>

fun deliver :: "Envelope \<Rightarrow> Listener \<Rightarrow> World \<Rightarrow> World" where
  "deliver message HandleMessageListener s = handleMessage message s"
| "deliver message (HandshakeListener k) s = handshake k message s"
| "deliver message (DisposeListener w) s = s"
| "deliver message (ViewStateListener w) s = s"

definition messageListeners :: "nat \<Rightarrow> World \<Rightarrow> Listener list" where
  "messageListeners p s =
     map reg_listener
       (filter (\<lambda>r. reg_panel r = p \<and> event_of (reg_listener r) = OnDidReceiveMessage) (listeners s))"

definition receiveMessage :: "nat \<Rightarrow> Envelope \<Rightarrow> World \<Rightarrow> World" where
  "receiveMessage p message s = fold (deliver message) (messageListeners p s) s"

text \<open>The host changes the visibility of panel \<open>p\<close> and fires \<open>onDidChangeViewState\<close>.\<close>

fun notify :: "Listener \<Rightarrow> World \<Rightarrow> World" where
  "notify (ViewStateListener w) s = viewStateChanged w s"
| "notify (DisposeListener w) s = s"
| "notify HandleMessageListener s = s"
| "notify (HandshakeListener k) s = s"

definition changeViewState :: "nat \<Rightarrow> bool \<Rightarrow> World \<Rightarrow> World" where
  "changeViewState p vis s =
     (let s1 = s\<lparr>panels := (panels s)(p := (panels s p)\<lparr>visible := vis\<rparr>)\<rparr>
      in fold notify
           (map reg_listener
              (filter (\<lambda>r. reg_panel r = p \<and> event_of (reg_listener r) = OnDidChangeViewState)
                 (listeners s1))) s1)"

text \<open>The listeners that a view state change of panel \<open>p\<close> reaches.\<close>

definition viewStateListeners :: "nat \<Rightarrow> World \<Rightarrow> Listener list" where
  "viewStateListeners p s =
     map reg_listener
       (filter (\<lambda>r. reg_panel r = p \<and> event_of (reg_listener r) = OnDidChangeViewState) (listeners s))"

text \<open>The user closes panel \<open>p\<close>: the host disposes it.\<close>

definition closePanel :: "nat \<Rightarrow> World \<Rightarrow> World" where
  "closePanel p s = WebviewPanel_dispose p s"

text \<open>
  Everything that can happen to the controller: the calls of its public methods and
  the events of the host. \<open>run\<close> performs a sequence of them.
\<close>

datatype Action =
  Render Uri ViewColumn
| Revive nat Uri
| PostMessage Envelope
| Dispose nat
| ReceiveMessage nat Envelope
| ChangeViewState nat bool
| ClosePanel nat

fun step :: "Action \<Rightarrow> World \<Rightarrow> World" where
  "step (Render uri col) s = snd (render uri col s)"
| "step (Revive p uri) s = revive p uri s"
| "step (PostMessage message) s = postMessage message s"
| "step (Dispose w) s = snd (Webview_dispose w s)"
| "step (ReceiveMessage p message) s = receiveMessage p message s"
| "step (ChangeViewState p vis) s = changeViewState p vis s"
| "step (ClosePanel p) s = closePanel p s"

definition run :: "Action list \<Rightarrow> World \<Rightarrow> World" where
  "run acts s = fold step acts s"

text \<open>
  The world of a freshly started editor: no panel, no object, nothing registered.
  \<open>rnd\<close> is the random source and \<open>bad\<close> the faulty disposables. The policy source
  is the one the desktop editor hands out, \<open>'self' https://*.vscode-cdn.net\<close>.
\<close>

definition initial :: "(nat \<Rightarrow> real) \<Rightarrow> nat list \<Rightarrow> World" where
  "initial rnd bad =
     \<lparr>panels = (\<lambda>p. \<lparr>viewType = [], title = [], viewColumn = Active,
                       options = \<lparr>enableScripts = False, localResourceRoots = []\<rparr>,
                       html = [], cspSource = [], visible = False, isDisposed = False\<rparr>),
      nextPanel = 0,
      instances = (\<lambda>w. \<lparr>panel = 0, extensionUri = [], disposables = []\<rparr>),
      nextWebview = 0,
      currentPanel = None,
      listeners = [],
      nextRegistration = 0,
      faulty = bad,
      disposeCalls = [],
      promises = [],
      errorMessages = [],
      posted = [],
      revealed = [],
      randomSource = rnd,
      randomCalls = 0,
      hostCspSource = CHR 0x27 # ''self'' @ CHR 0x27 # '' https://*.vscode-cdn.net'',
      hostWebviewUri = (\<lambda>p u. ''https://file+.vscode-resource.vscode-cdn.net/'' @ u)\<rparr>"

text \<open>One turn of the loop of \<open>dispose()\<close>: \<open>pop()\<close>, then \<open>dispose()\<close> of the popped element.\<close>

definition pop_dispose :: "nat \<Rightarrow> World \<Rightarrow> Completion \<times> World" where
  "pop_dispose w s =
     Disposable_dispose (last (disposables (instances s w)))
       (s\<lparr>instances := (instances s)(w := (instances s w)
            \<lparr>disposables := butlast (disposables (instances s w))\<rparr>)\<rparr>)"

text \<open>Worlds and values for the examples.\<close>

definition zeros :: "nat \<Rightarrow> real" where
  "zeros n = 0"

definition extUri :: Uri where
  "extUri = ''file:///ext''"

definition freshWorld :: World where
  "freshWorld = initial zeros []"

definition renderedWorld :: World where
  "renderedWorld = snd (render extUri Beside freshWorld)"

text \<open>
  A world in which the disposable of registration 2 throws, after one \<open>render\<close>;
  and the same world at the moment the host, closing the panel, has marked it disposed
  and calls the listener \<open>() => this.dispose()\<close>.
\<close>

definition faultyWorld :: World where
  "faultyWorld = snd (render extUri Beside (initial zeros [2]))"

definition closingWorld :: World where
  "closingWorld = faultyWorld\<lparr>panels := (panels faultyWorld)(0 := (panels faultyWorld 0)\<lparr>isDisposed := True\<rparr>)\<rparr>"

text \<open>
  A world in which the host holds a panel titled \<open>Restored\<close> from an earlier
  session, and that world after \<open>revive\<close> has wrapped the panel. A random source
  that returns 0 for its first 32 values and one half from then on.
\<close>

definition hostPanelWorld :: World where
  "hostPanelWorld =
     freshWorld\<lparr>panels := (panels freshWorld)(0 := (panels freshWorld 0)\<lparr>title := ''Restored''\<rparr>),
                nextPanel := 1\<rparr>"

definition restoredWorld :: World where
  "restoredWorld = revive 0 extUri hostPanelWorld"

definition halves :: "nat \<Rightarrow> real" where
  "halves n = (if n < 32 then 0 else 1 / 2)"

definition renders :: "(Uri \<times> ViewColumn) list \<Rightarrow> Action list" where
  "renders calls = map (\<lambda>(uri, col). Render uri col) calls"

text \<open>
  The index \<open>Math.floor(r * possible.length)\<close> and the character that one value
  \<open>r\<close> of the random source selects, and the nonce that the 32 values from position
  \<open>n\<close> on select.
\<close>

definition pickIndex :: "real \<Rightarrow> int" where
  "pickIndex r = Math_floor (multiply r (real (length possible)))"

definition pick :: "real \<Rightarrow> string" where
  "pick r = charAt possible (pickIndex r)"

definition nonce_from :: "(nat \<Rightarrow> real) \<Rightarrow> nat \<Rightarrow> string" where
  "nonce_from rnd n = concat (map (\<lambda>j. pick (rnd (n + j))) [0..<32])"

text \<open>
  Reading a generated document back: \<open>after m doc\<close> is what follows the first
  occurrence of \<open>m\<close> in \<open>doc\<close>. \<open>cspNonce\<close> is the nonce source \<open>'nonce-...'\<close>
  of the content security policy, up to its closing quote; \<open>scriptNonce\<close> is the
  value of the \<open>nonce\<close> attribute of the first \<open>script\<close> tag.
\<close>

fun starts :: "string \<Rightarrow> string \<Rightarrow> bool" where
  "starts [] ys = True"
| "starts (x # xs) [] = False"
| "starts (x # xs) (y # ys) = (if x = y then starts xs ys else False)"

fun after :: "string \<Rightarrow> string \<Rightarrow> string option" where
  "after m [] = None"
| "after m (c # cs) =
     (if starts m (c # cs) then Some (drop (length m) (c # cs)) else after m cs)"

definition cspNonce :: "string \<Rightarrow> string option" where
  "cspNonce doc = map_option (takeWhile (\<lambda>c. c \<noteq> CHR 0x27)) (after (CHR 0x27 # ''nonce-'') doc)"

definition scriptNonce :: "string \<Rightarrow> string option" where
  "scriptNonce doc =
     (case after ''<script '' doc of
        None \<Rightarrow> None
      | Some tag \<Rightarrow> map_option (takeWhile (\<lambda>c. c \<noteq> CHR 0x22)) (after ''nonce=\"'' tag))"

text \<open>
  Worlds whose references make sense: a registration was handed out before the next
  one, a handshake closure belongs to a promise that exists, the arrays of the
  objects hold handed-out registrations, and the tracked object exists. The fresh
  editor is consistent and every action keeps a world so.
\<close>

fun promises_needed :: "Listener \<Rightarrow> nat" where
  "promises_needed (HandshakeListener k) = Suc k"
| "promises_needed (DisposeListener w) = 0"
| "promises_needed HandleMessageListener = 0"
| "promises_needed (ViewStateListener w) = 0"

definition consistent :: "World \<Rightarrow> bool" where
  "consistent s \<longleftrightarrow>
     (\<forall>r \<in> set (listeners s). reg_id r < nextRegistration s \<and>
        promises_needed (reg_listener r) \<le> length (promises s)) \<and>
     (\<forall>v < nextWebview s. \<forall>d \<in> set (disposables (instances s v)). d < nextRegistration s) \<and>
     (\<forall>w \<in> set_option (currentPanel s). w < nextWebview s)"

definition abandoned :: "nat \<Rightarrow> World \<Rightarrow> bool" where
  "abandoned k s \<longleftrightarrow>
     k < length (promises s) \<and> promises s ! k = Pending \<and>
     (\<forall>r \<in> set (listeners s). reg_listener r \<noteq> HandshakeListener k)"

text \<open>
  The handshake's handle \<open>d\<close> is the last one pushed onto the array of the object
  \<open>w\<close>, so it is the first one popped. \<open>armed\<close>: it is still the last element of the
  array (or already detached); \<open>detached\<close>: it has left the array and is attached
  nowhere, and with it the closure of promise \<open>k\<close>.
\<close>

definition armed :: "nat \<Rightarrow> nat \<Rightarrow> nat \<Rightarrow> World \<Rightarrow> bool" where
  "armed d w k t \<longleftrightarrow>
     d \<notin> set (faulty t) \<and>
     (\<forall>r \<in> set (listeners t). reg_listener r = HandshakeListener k \<longrightarrow> reg_id r = d) \<and>
     ((disposables (instances t w) \<noteq> [] \<and> last (disposables (instances t w)) = d \<and>
       d \<notin> set (butlast (disposables (instances t w)))) \<or>
      (d \<notin> set (disposables (instances t w)) \<and> (\<forall>r \<in> set (listeners t). reg_id r \<noteq> d)))"

definition detached :: "nat \<Rightarrow> nat \<Rightarrow> nat \<Rightarrow> World \<Rightarrow> bool" where
  "detached d w k t \<longleftrightarrow>
     (\<forall>r \<in> set (listeners t). reg_listener r = HandshakeListener k \<longrightarrow> reg_id r = d) \<and>
     d \<notin> set (disposables (instances t w)) \<and> (\<forall>r \<in> set (listeners t). reg_id r \<noteq> d)"

text \<open>
  The promises whose handshake closures a message to panel \<open>p\<close> reaches, in the order
  the closures run; and what the closure of line 61 does with a message.
\<close>

fun handshake_ids :: "Listener list \<Rightarrow> nat list" where
  "handshake_ids [] = []"
| "handshake_ids (HandshakeListener k # ls) = k # handshake_ids ls"
| "handshake_ids (DisposeListener w # ls) = handshake_ids ls"
| "handshake_ids (HandleMessageListener # ls) = handshake_ids ls"
| "handshake_ids (ViewStateListener w # ls) = handshake_ids ls"

definition handshakes :: "nat \<Rightarrow> World \<Rightarrow> nat list" where
  "handshakes p s = handshake_ids (messageListeners p s)"

definition verdict :: "Envelope \<Rightarrow> PromiseState" where
  "verdict message = (if command message = ''ready'' then Fulfilled else Rejected)"

section \<open>Properties\<close>

subsection \<open>Facts about the primitives\<close>

lemma register_fields [simp]:
  "currentPanel (register p l w s) = currentPanel s"
  "nextWebview (register p l w s) = nextWebview s"
  "nextPanel (register p l w s) = nextPanel s"
  "panels (register p l w s) = panels s"
  "promises (register p l w s) = promises s"
  "revealed (register p l w s) = revealed s"
  "errorMessages (register p l w s) = errorMessages s"
  "posted (register p l w s) = posted s"
  "faulty (register p l w s) = faulty s"
  "disposeCalls (register p l w s) = disposeCalls s"
  "randomCalls (register p l w s) = randomCalls s"
  "randomSource (register p l w s) = randomSource s"
  "nextRegistration (register p l w s) = Suc (nextRegistration s)"
  "listeners (register p l w s) =
     listeners s @ [\<lparr>reg_id = nextRegistration s, reg_panel = p, reg_listener = l\<rparr>]"
  "panel (instances (register p l w s) v) = panel (instances s v)"
  "extensionUri (instances (register p l w s) v) = extensionUri (instances s v)"
  "disposables (instances (register p l w s) v) =
     (if v = w then disposables (instances s w) @ [nextRegistration s] else disposables (instances s v))"
  "hostWebviewUri (register p l w s) = hostWebviewUri s"
  by (simp_all add: register_def)

declare generateNonce_loop.simps [simp del]

lemma generateNonce_loop_eq:
  "generateNonce_loop i nonce s =
     (nonce @ concat (map (\<lambda>j. pick (randomSource s (randomCalls s + j))) [0..<32 - i]),
      s\<lparr>randomCalls := randomCalls s + (32 - i)\<rparr>)"
proof (induction "32 - i" arbitrary: i nonce s)
  case 0
  then show ?case by (subst generateNonce_loop.simps) simp
next
  case (Suc m)
  let ?s1 = "s\<lparr>randomCalls := Suc (randomCalls s)\<rparr>"
  let ?c = "pick (randomSource s (randomCalls s))"
  have i: "i < 32" and m: "m = 32 - (i + 1)" using Suc.hyps(2) by simp_all
  have "generateNonce_loop i nonce s = generateNonce_loop (i + 1) (nonce @ ?c) ?s1"
    using i by (subst generateNonce_loop.simps) (simp add: Math_random_def pick_def pickIndex_def)
  also have "\<dots> = ((nonce @ ?c) @ concat (map (\<lambda>j. pick (randomSource ?s1 (randomCalls ?s1 + j))) [0..<32 - (i + 1)]),
      ?s1\<lparr>randomCalls := randomCalls ?s1 + (32 - (i + 1))\<rparr>)"
    by (rule Suc.hyps(1)[OF m])
  also have "\<dots> = (nonce @ concat (map (\<lambda>j. pick (randomSource s (randomCalls s + j))) [0..<32 - i]),
      s\<lparr>randomCalls := randomCalls s + (32 - i)\<rparr>)"
    unfolding m[symmetric] Suc.hyps(2)[symmetric]
    by (simp add: upt_conv_Cons[of 0 "Suc m"] map_Suc_upt[symmetric] comp_def del: upt_Suc)
  finally show ?case .
qed

lemma generateNonce_eq:
  "generateNonce s = (nonce_from (randomSource s) (randomCalls s), s\<lparr>randomCalls := randomCalls s + 32\<rparr>)"
  by (simp add: generateNonce_def generateNonce_loop_eq nonce_from_def)

lemma pick_alphabet: "set (pick r) \<subseteq> set possible"
proof (cases "0 \<le> pickIndex r \<and> pickIndex r < int (length possible)")
  case True
  then have "nat (pickIndex r) < length possible" by linarith
  then show ?thesis using True by (simp add: pick_def charAt_def)
next
  case False
  then show ?thesis by (auto simp: pick_def charAt_def)
qed

lemma nonce_alphabet: "set (nonce_from rnd n) \<subseteq> set possible"
  unfolding nonce_from_def using pick_alphabet by auto

lemma possible_plain:
  "CHR 0x27 \<notin> set possible" "CHR 0x22 \<notin> set possible" "CHR ''<'' \<notin> set possible"
  by (simp_all add: possible_def)

lemma after_skip: "a \<notin> set xs \<Longrightarrow> after (a # m) (xs @ ys) = after (a # m) ys"
  by (induction xs) auto

lemma takeWhile_stop: "a \<notin> set xs \<Longrightarrow> takeWhile (\<lambda>c. c \<noteq> a) (xs @ a # ys) = xs"
  by (induction xs) auto

lemma update_eq:
  "update w s =
     s\<lparr>randomCalls := randomCalls (snd (generateNonce s)),
       panels := (panels s)(panel (instances s w) := (panels s (panel (instances s w)))
          \<lparr>html := html_template (fst (generateNonce s)) (getWebviewUri w [''out'', ''webview.js''] s)\<rparr>)\<rparr>"
  by (simp add: update_def getHtmlForWebview_def generateNonce_eq set_html_def)

lemma update_fields [simp]:
  "currentPanel (update w s) = currentPanel s"
  "nextWebview (update w s) = nextWebview s"
  "nextPanel (update w s) = nextPanel s"
  "instances (update w s) = instances s"
  "listeners (update w s) = listeners s"
  "nextRegistration (update w s) = nextRegistration s"
  "promises (update w s) = promises s"
  "revealed (update w s) = revealed s"
  "errorMessages (update w s) = errorMessages s"
  "posted (update w s) = posted s"
  "faulty (update w s) = faulty s"
  "disposeCalls (update w s) = disposeCalls s"
  "randomSource (update w s) = randomSource s"
  by (simp_all add: update_eq)

lemma update_panels:
  "panels (update w s) = (panels s)(panel (instances s w) := (panels s (panel (instances s w)))
     \<lparr>html := html (panels (update w s) (panel (instances s w)))\<rparr>)"
  by (simp add: update_eq)

lemma new_Webview_fields [simp]:
  "fst (new_Webview p uri s) = nextWebview s"
  "currentPanel (snd (new_Webview p uri s)) = currentPanel s"
  "nextWebview (snd (new_Webview p uri s)) = Suc (nextWebview s)"
  "nextPanel (snd (new_Webview p uri s)) = nextPanel s"
  "promises (snd (new_Webview p uri s)) = promises s"
  "revealed (snd (new_Webview p uri s)) = revealed s"
  "errorMessages (snd (new_Webview p uri s)) = errorMessages s"
  "posted (snd (new_Webview p uri s)) = posted s"
  "faulty (snd (new_Webview p uri s)) = faulty s"
  "disposeCalls (snd (new_Webview p uri s)) = disposeCalls s"
  "randomSource (snd (new_Webview p uri s)) = randomSource s"
  "nextRegistration (snd (new_Webview p uri s)) = nextRegistration s + 3"
  "listeners (snd (new_Webview p uri s)) =
     listeners s @
     [\<lparr>reg_id = nextRegistration s, reg_panel = p, reg_listener = DisposeListener (nextWebview s)\<rparr>,
      \<lparr>reg_id = nextRegistration s + 1, reg_panel = p, reg_listener = HandleMessageListener\<rparr>,
      \<lparr>reg_id = nextRegistration s + 2, reg_panel = p, reg_listener = ViewStateListener (nextWebview s)\<rparr>]"
  "instances (snd (new_Webview p uri s)) =
     (instances s)(nextWebview s := \<lparr>panel = p, extensionUri = uri,
        disposables = [nextRegistration s, nextRegistration s + 1, nextRegistration s + 2]\<rparr>)"
  by (simp_all add: new_Webview_def Let_def register_def)

lemma new_Webview_panels:
  "panels (snd (new_Webview p uri s)) =
     (panels s)(p := (panels s p)\<lparr>html := html (panels (snd (new_Webview p uri s)) p)\<rparr>)"
  by (simp add: new_Webview_def Let_def update_eq)

lemma create_fields [simp]:
  "fst (create uri col s) = nextWebview s"
  "currentPanel (snd (create uri col s)) = currentPanel s"
  "nextWebview (snd (create uri col s)) = Suc (nextWebview s)"
  "nextPanel (snd (create uri col s)) = Suc (nextPanel s)"
  "promises (snd (create uri col s)) = promises s"
  "revealed (snd (create uri col s)) = revealed s"
  "panel (instances (snd (create uri col s)) (nextWebview s)) = nextPanel s"
  by (simp_all add: create_def createWebviewPanel_def split_def)

lemma render_tracked:
  assumes "currentPanel s = Some w"
  shows "currentPanel (snd (render uri col s)) = Some w"
    and "nextWebview (snd (render uri col s)) = nextWebview s"
    and "nextPanel (snd (render uri col s)) = nextPanel s"
    and "revealed (snd (render uri col s)) = revealed s @ [(panel (instances s w), col)]"
  using assms by (simp_all add: render_def Let_def reveal_def new_Promise_def)

lemma render_absent:
  assumes "currentPanel s = None"
  shows "currentPanel (snd (render uri col s)) = Some (nextWebview s)"
    and "nextWebview (snd (render uri col s)) = Suc (nextWebview s)"
    and "nextPanel (snd (render uri col s)) = Suc (nextPanel s)"
    and "panel (instances (snd (render uri col s)) (nextWebview s)) = nextPanel s"
    and "revealed (snd (render uri col s)) = revealed s"
  using assms by (simp_all add: render_def Let_def new_Promise_def split_def)

lemma create_more [simp]:
  "errorMessages (snd (create uri col s)) = errorMessages s"
  "posted (snd (create uri col s)) = posted s"
  "faulty (snd (create uri col s)) = faulty s"
  "disposeCalls (snd (create uri col s)) = disposeCalls s"
  "randomSource (snd (create uri col s)) = randomSource s"
  "nextRegistration (snd (create uri col s)) = nextRegistration s + 3"
  "listeners (snd (create uri col s)) =
     listeners s @
     [\<lparr>reg_id = nextRegistration s, reg_panel = nextPanel s, reg_listener = DisposeListener (nextWebview s)\<rparr>,
      \<lparr>reg_id = nextRegistration s + 1, reg_panel = nextPanel s, reg_listener = HandleMessageListener\<rparr>,
      \<lparr>reg_id = nextRegistration s + 2, reg_panel = nextPanel s, reg_listener = ViewStateListener (nextWebview s)\<rparr>]"
  "instances (snd (create uri col s)) =
     (instances s)(nextWebview s := \<lparr>panel = nextPanel s, extensionUri = uri,
        disposables = [nextRegistration s, nextRegistration s + 1, nextRegistration s + 2]\<rparr>)"
  by (simp_all add: create_def createWebviewPanel_def split_def)

lemma render_absent_more:
  assumes "currentPanel s = None"
  shows "fst (render uri col s) = length (promises s)"
    and "promises (snd (render uri col s)) = promises s @ [Pending]"
    and "errorMessages (snd (render uri col s)) = errorMessages s"
    and "faulty (snd (render uri col s)) = faulty s"
    and "disposeCalls (snd (render uri col s)) = disposeCalls s"
    and "nextRegistration (snd (render uri col s)) = nextRegistration s + 4"
    and "listeners (snd (render uri col s)) =
     listeners s @
     [\<lparr>reg_id = nextRegistration s, reg_panel = nextPanel s, reg_listener = DisposeListener (nextWebview s)\<rparr>,
      \<lparr>reg_id = nextRegistration s + 1, reg_panel = nextPanel s, reg_listener = HandleMessageListener\<rparr>,
      \<lparr>reg_id = nextRegistration s + 2, reg_panel = nextPanel s, reg_listener = ViewStateListener (nextWebview s)\<rparr>,
      \<lparr>reg_id = nextRegistration s + 3, reg_panel = nextPanel s, reg_listener = HandshakeListener (length (promises s))\<rparr>]"
    and "instances (snd (render uri col s)) =
     (instances s)(nextWebview s := \<lparr>panel = nextPanel s, extensionUri = uri,
        disposables = [nextRegistration s, nextRegistration s + 1, nextRegistration s + 2, nextRegistration s + 3]\<rparr>)"
  using assms by (simp_all add: render_def Let_def new_Promise_def split_def register_def)

lemma render_tracked_more:
  assumes "currentPanel s = Some w"
  shows "fst (render uri col s) = length (promises s)"
    and "promises (snd (render uri col s)) = promises s @ [Pending]"
    and "errorMessages (snd (render uri col s)) = errorMessages s"
    and "faulty (snd (render uri col s)) = faulty s"
    and "disposeCalls (snd (render uri col s)) = disposeCalls s"
    and "panels (snd (render uri col s)) = panels s"
    and "nextRegistration (snd (render uri col s)) = Suc (nextRegistration s)"
    and "listeners (snd (render uri col s)) =
     listeners s @
     [\<lparr>reg_id = nextRegistration s, reg_panel = panel (instances s w),
       reg_listener = HandshakeListener (length (promises s))\<rparr>]"
    and "instances (snd (render uri col s)) =
     (instances s)(w := (instances s w)\<lparr>disposables := disposables (instances s w) @ [nextRegistration s]\<rparr>)"
  using assms by (simp_all add: render_def Let_def new_Promise_def split_def register_def reveal_def)

lemma settle_fields [simp]:
  "errorMessages (settle k v s) = errorMessages s"
  "listeners (settle k v s) = listeners s"
  "instances (settle k v s) = instances s"
  "panels (settle k v s) = panels s"
  "length (promises (settle k v s)) = length (promises s)"
  by (simp_all add: settle_def)

lemma settle_pending:
  "k < length (promises s) \<Longrightarrow> promises s ! k = Pending \<Longrightarrow> promises (settle k v s) ! k = v"
  by (simp add: settle_def)

lemma settle_settled:
  "promises s ! k \<noteq> Pending \<Longrightarrow> settle k v s = s"
  by (simp add: settle_def)

lemma settle_other:
  "j \<noteq> k \<Longrightarrow> promises (settle k v s) ! j = promises s ! j"
  by (simp add: settle_def)

lemma handleMessage_fields [simp]:
  "promises (handleMessage m s) = promises s"
  "listeners (handleMessage m s) = listeners s"
  "instances (handleMessage m s) = instances s"
  "panels (handleMessage m s) = panels s"
  "errorMessages (handleMessage m s) =
     (if command m = ''error'' then errorMessages s @ [data m] else errorMessages s)"
  by (simp_all add: handleMessage_def showErrorMessage_def)

lemma receiveMessage_two:
  "messageListeners p s = [HandleMessageListener, HandshakeListener k] \<Longrightarrow>
     receiveMessage p m s = handshake k m (handleMessage m s)"
  by (simp add: receiveMessage_def)

lemma run_renders_tracked:
  "currentPanel s = Some w \<Longrightarrow>
     currentPanel (run (renders calls) s) = Some w \<and>
     nextWebview (run (renders calls) s) = nextWebview s \<and>
     nextPanel (run (renders calls) s) = nextPanel s"
proof (induction calls arbitrary: s)
  case Nil
  then show ?case by (simp add: run_def renders_def)
next
  case (Cons c calls)
  obtain uri col where c: "c = (uri, col)" by (cases c)
  have step: "run (renders (c # calls)) s = run (renders calls) (snd (render uri col s))"
    by (simp add: run_def renders_def c)
  show ?case
    using Cons.IH[of "snd (render uri col s)"] render_tracked[OF Cons.prems, of uri col]
    by (simp add: step)
qed

lemma run_renders_bound:
  "nextWebview (run (renders calls) s) \<le> Suc (nextWebview s) \<and>
   nextPanel (run (renders calls) s) \<le> Suc (nextPanel s)"
proof (cases calls)
  case Nil
  then show ?thesis by (simp add: run_def renders_def)
next
  case (Cons c rest)
  obtain uri col where c: "c = (uri, col)" by (cases c)
  have step: "run (renders calls) s = run (renders rest) (snd (render uri col s))"
    by (simp add: run_def renders_def c Cons)
  show ?thesis
  proof (cases "currentPanel s")
    case None
    from render_absent[OF None, of uri col] run_renders_tracked[of "snd (render uri col s)" "nextWebview s" rest]
    show ?thesis by (simp add: step)
  next
    case (Some w)
    from render_tracked[OF Some, of uri col] run_renders_tracked[of "snd (render uri col s)" w rest]
    show ?thesis by (simp add: step)
  qed
qed

subsection \<open>The singleton\<close>

text \<open>
  C1. A \<open>render\<close> call made while \<open>Webview.currentPanel\<close> is set reveals the panel of
  that same object and constructs neither an object nor a panel; a \<open>render\<close> call
  made while it is undefined constructs exactly one object on exactly one new panel
  and stores it as the singleton. Hence any sequence of \<open>render\<close> calls constructs at
  most one object and one panel, and started from the fresh editor at most one
  object exists at any time.
\<close>

theorem render_singleton:
  "(currentPanel s = Some w \<longrightarrow>
      currentPanel (snd (render uri col s)) = Some w \<and>
      nextWebview (snd (render uri col s)) = nextWebview s \<and>
      nextPanel (snd (render uri col s)) = nextPanel s \<and>
      revealed (snd (render uri col s)) = revealed s @ [(panel (instances s w), col)]) \<and>
   (currentPanel s = None \<longrightarrow>
      currentPanel (snd (render uri col s)) = Some (nextWebview s) \<and>
      nextWebview (snd (render uri col s)) = Suc (nextWebview s) \<and>
      nextPanel (snd (render uri col s)) = Suc (nextPanel s) \<and>
      panel (instances (snd (render uri col s)) (nextWebview s)) = nextPanel s \<and>
      revealed (snd (render uri col s)) = revealed s) \<and>
   nextWebview (run (renders calls) s) \<le> Suc (nextWebview s) \<and>
   nextPanel (run (renders calls) s) \<le> Suc (nextPanel s) \<and>
   (currentPanel s = Some w \<longrightarrow>
      currentPanel (run (renders calls) s) = Some w \<and>
      nextWebview (run (renders calls) s) = nextWebview s) \<and>
   nextWebview (run (renders calls) (initial rnd bad)) \<le> 1"
proof -
  have "nextWebview (run (renders calls) (initial rnd bad)) \<le> Suc (nextWebview (initial rnd bad))"
    using run_renders_bound by blast
  then have "nextWebview (run (renders calls) (initial rnd bad)) \<le> 1"
    by (simp add: initial_def)
  then show ?thesis
    using render_tracked[of s w uri col] render_absent[of s uri col]
      run_renders_bound[of calls s] run_renders_tracked[of s w calls]
    by simp
qed

theorem render_singleton_witness:
  "currentPanel freshWorld = None \<and>
   currentPanel renderedWorld = Some 0 \<and>
   nextWebview renderedWorld = 1 \<and>
   currentPanel (snd (render extUri (Column 1) renderedWorld)) = Some 0 \<and>
   nextWebview (snd (render extUri (Column 1) renderedWorld)) = 1 \<and>
   nextPanel (snd (render extUri (Column 1) renderedWorld)) = 1 \<and>
   nextWebview (run (renders [(extUri, Beside), (extUri, Beside), (extUri, Active)]) renderedWorld) = 1"
proof -
  have a: "currentPanel freshWorld = None" and n: "nextWebview freshWorld = 0" "nextPanel freshWorld = 0"
    by (simp_all add: freshWorld_def initial_def)
  have b: "currentPanel renderedWorld = Some 0" "nextWebview renderedWorld = 1" "nextPanel renderedWorld = 1"
    using a n render_singleton[of freshWorld 0 extUri Beside "[]" zeros "[]"]
    by (simp_all add: renderedWorld_def)
  show ?thesis
    using a b render_singleton[of renderedWorld 0 extUri "Column 1"
        "[(extUri, Beside), (extUri, Beside), (extUri, Active)]" zeros "[]"]
    by simp
qed

subsection \<open>Messages\<close>

text \<open>
  C4. \<open>postMessage\<close> called while no object is tracked (\<open>Webview.currentPanel\<close> is
  undefined) returns with the world as it was: nothing is delivered and no part of
  the state changes.
\<close>

theorem postMessage_absent:
  "currentPanel s = None \<Longrightarrow> postMessage message s = s \<and> posted (postMessage message s) = posted s"
  by (simp add: postMessage_def)

theorem postMessage_absent_witness:
  "currentPanel freshWorld = None \<and>
   postMessage \<lparr>command = ''x'', data = None\<rparr> freshWorld = freshWorld \<and>
   posted (postMessage \<lparr>command = ''x'', data = None\<rparr> freshWorld) = []"
proof -
  have a: "currentPanel freshWorld = None" and b: "posted freshWorld = []"
    by (simp_all add: freshWorld_def initial_def)
  show ?thesis
    using a b postMessage_absent[OF a, of "\<lparr>command = ''x'', data = None\<rparr>"] by simp
qed

text \<open>
  C6. For an inbound message whose command is neither \<open>ready\<close> nor \<open>error\<close>,
  \<open>handleMessage\<close> is a no-op: it returns with the world unchanged, so it shows no
  notification and changes no state, also when the host runs it as a listener.
\<close>

theorem handleMessage_unrecognized:
  "command message \<noteq> ''ready'' \<Longrightarrow> command message \<noteq> ''error'' \<Longrightarrow>
     handleMessage message s = s \<and> deliver message HandleMessageListener s = s"
  by (simp add: handleMessage_def)

theorem handleMessage_unrecognized_witness:
  "command \<lparr>command = ''resize'', data = Some ''x''\<rparr> \<noteq> ''ready'' \<and>
   command \<lparr>command = ''resize'', data = Some ''x''\<rparr> \<noteq> ''error'' \<and>
   handleMessage \<lparr>command = ''resize'', data = Some ''x''\<rparr> renderedWorld = renderedWorld \<and>
   deliver \<lparr>command = ''resize'', data = Some ''x''\<rparr> HandleMessageListener renderedWorld = renderedWorld"
proof -
  have a: "command \<lparr>command = ''resize'', data = Some ''x''\<rparr> \<noteq> ''ready''"
    and b: "command \<lparr>command = ''resize'', data = Some ''x''\<rparr> \<noteq> ''error''"
    by simp_all
  show ?thesis
    using a b handleMessage_unrecognized[OF a b, of renderedWorld] by simp
qed

text \<open>
  C2. After a fresh \<open>render\<close> call (one that constructs the panel), the first inbound
  message decides the returned promise: it is fulfilled if the command is \<open>ready\<close>
  and rejected for any other command, and a later message no longer changes it. When
  the first message is \<open>{command: "error", data: x}\<close>, the promise is rejected and, in
  addition, \<open>handleMessage\<close> shows the error notification \<open>x\<close>.
\<close>

theorem handshake_first_message:
  assumes fresh: "currentPanel s = None"
    and regs: "\<forall>r \<in> set (listeners s). reg_panel r \<noteq> nextPanel s"
  shows "fst (render uri col s) = length (promises s) \<and>
     promises (snd (render uri col s)) ! length (promises s) = Pending \<and>
     (command message = ''ready'' \<longrightarrow>
        promises (receiveMessage (nextPanel s) message (snd (render uri col s))) ! length (promises s) = Fulfilled) \<and>
     (command message \<noteq> ''ready'' \<longrightarrow>
        promises (receiveMessage (nextPanel s) message (snd (render uri col s))) ! length (promises s) = Rejected) \<and>
     (command message = ''error'' \<longrightarrow>
        errorMessages (receiveMessage (nextPanel s) message (snd (render uri col s))) =
          errorMessages s @ [data message]) \<and>
     promises (receiveMessage (nextPanel s) later
        (receiveMessage (nextPanel s) message (snd (render uri col s)))) ! length (promises s) =
       promises (receiveMessage (nextPanel s) message (snd (render uri col s))) ! length (promises s)"
proof -
  let ?s1 = "snd (render uri col s)"
  let ?k = "length (promises s)"
  let ?p = "nextPanel s"
  have old: "filter (\<lambda>r. reg_panel r = ?p \<and> event_of (reg_listener r) = OnDidReceiveMessage) (listeners s) = []"
    using regs by (simp add: filter_empty_conv)
  have ml: "messageListeners ?p ?s1 = [HandleMessageListener, HandshakeListener ?k]"
    by (simp add: messageListeners_def render_absent_more(7)[OF fresh] old)
  have rm: "\<And>m. receiveMessage ?p m ?s1 = handshake ?k m (handleMessage m ?s1)"
    by (rule receiveMessage_two[OF ml])
  have pr: "promises ?s1 = promises s @ [Pending]"
    by (rule render_absent_more(2)[OF fresh])
  have pend: "?k < length (promises (handleMessage message ?s1))" "promises (handleMessage message ?s1) ! ?k = Pending"
    by (simp_all add: pr)
  let ?s2 = "receiveMessage ?p message ?s1"
  have settled: "promises ?s2 ! ?k = (if command message = ''ready'' then Fulfilled else Rejected)"
    using pend by (simp add: rm handshake_def settle_pending)
  have ml2: "messageListeners ?p ?s2 = [HandleMessageListener, HandshakeListener ?k]"
    using ml by (simp add: messageListeners_def rm handshake_def)
  have ne: "promises (handleMessage later ?s2) ! ?k \<noteq> Pending"
    using settled by simp
  have stay: "promises (receiveMessage ?p later ?s2) ! ?k = promises ?s2 ! ?k"
    unfolding receiveMessage_two[OF ml2] handshake_def
    using ne by (simp add: settle_settled)
  have err: "command message = ''error'' \<longrightarrow> errorMessages ?s2 = errorMessages s @ [data message]"
    by (simp add: rm handshake_def render_absent_more(3)[OF fresh])
  show ?thesis
    using settled stay err by (simp add: render_absent_more(1)[OF fresh] pr)
qed

theorem handshake_first_message_witness:
  "currentPanel freshWorld = None \<and>
   listeners freshWorld = [] \<and>
   promises renderedWorld ! 0 = Pending \<and>
   promises (receiveMessage 0 \<lparr>command = ''ready'', data = None\<rparr> renderedWorld) ! 0 = Fulfilled \<and>
   promises (receiveMessage 0 \<lparr>command = ''error'', data = Some ''x''\<rparr> renderedWorld) ! 0 = Rejected \<and>
   errorMessages (receiveMessage 0 \<lparr>command = ''error'', data = Some ''x''\<rparr> renderedWorld) = [Some ''x'']"
proof -
  have a: "currentPanel freshWorld = None"
    and b: "\<forall>r \<in> set (listeners freshWorld). reg_panel r \<noteq> nextPanel freshWorld"
    and c: "nextPanel freshWorld = 0" "promises freshWorld = []" "errorMessages freshWorld = []"
      "listeners freshWorld = []"
    by (simp_all add: freshWorld_def initial_def)
  show ?thesis
    using a b c
      handshake_first_message[OF a b, of extUri Beside "\<lparr>command = ''ready'', data = None\<rparr>"
        "\<lparr>command = ''ready'', data = None\<rparr>"]
      handshake_first_message[OF a b, of extUri Beside "\<lparr>command = ''error'', data = Some ''x''\<rparr>"
        "\<lparr>command = ''ready'', data = None\<rparr>"]
    by (simp add: renderedWorld_def)
qed

subsection \<open>Revival\<close>

text \<open>
  C8. \<open>revive(panel, extensionUri)\<close> wraps the given panel in a new object and stores
  it as the singleton. It does not apply the options a fresh \<open>create\<close> gives its
  panel (\<open>enableScripts\<close>, \<open>localResourceRoots\<close>): the options of the panel are what
  they were, and so are its view type, title, column, origin, visibility and every
  other panel; the constructor assigns the html content only and creates no panel.
  A fresh \<open>create\<close> gives its new panel the options of \<open>getOptions\<close>.
\<close>

theorem revive_keeps_configuration:
  "currentPanel (revive p uri s) = Some (nextWebview s) \<and>
   panel (instances (revive p uri s) (nextWebview s)) = p \<and>
   extensionUri (instances (revive p uri s) (nextWebview s)) = uri \<and>
   options (panels (revive p uri s) p) = options (panels s p) \<and>
   panels (revive p uri s) = (panels s)(p := (panels s p)\<lparr>html := html (panels (revive p uri s) p)\<rparr>) \<and>
   nextPanel (revive p uri s) = nextPanel s \<and>
   options (panels (snd (create uri col s)) (nextPanel s)) = getOptions uri \<and>
   enableScripts (getOptions uri) \<and>
   localResourceRoots (getOptions uri) = [joinPath uri [''out'']]"
proof -
  have r: "revive p uri s = (snd (new_Webview p uri s))\<lparr>currentPanel := Some (nextWebview s)\<rparr>"
    using new_Webview_fields(1)[of p uri s] by (simp add: revive_def split_def)
  have pn: "panels (revive p uri s) = panels (snd (new_Webview p uri s))"
    by (simp add: r)
  have "panels (revive p uri s) = (panels s)(p := (panels s p)\<lparr>html := html (panels (revive p uri s) p)\<rparr>)"
    unfolding pn by (rule new_Webview_panels)
  moreover from this have "options (panels (revive p uri s) p) = options (panels s p)"
    by (metis WebviewPanel.select_convs(4) WebviewPanel.surjective WebviewPanel.update_convs(5) fun_upd_same)
  moreover have "options (panels (snd (create uri col s)) (nextPanel s)) = getOptions uri"
    by (simp add: create_def createWebviewPanel_def new_Webview_def Let_def update_eq)
  ultimately show ?thesis
    by (simp add: r getOptions_def)
qed

subsection \<open>Disposal\<close>

lemma drain_unfold:
  "drain w s =
     (if disposables (instances s w) = [] then (Normal, s)
      else if fst (pop_dispose w s) = Throw then (Throw, snd (pop_dispose w s))
      else drain w (snd (pop_dispose w s)))"
  by (subst drain.simps)
     (simp add: pop_dispose_def Let_def split: prod.splits Completion.splits)

lemma pop_dispose_length:
  "disposables (instances s w) \<noteq> [] \<Longrightarrow>
     length (disposables (instances (snd (pop_dispose w s)) w)) < length (disposables (instances s w))"
  by (simp add: pop_dispose_def Disposable_dispose_def)

lemma drain_preserves:
  assumes step: "\<And>s. disposables (instances s w) \<noteq> [] \<Longrightarrow> P s \<Longrightarrow> P (snd (pop_dispose w s))"
  shows "P s \<Longrightarrow> P (snd (drain w s))"
proof (induction "length (disposables (instances s w))" arbitrary: s rule: less_induct)
  case less
  show ?case
  proof (cases "disposables (instances s w) = []")
    case True
    then show ?thesis using less.prems by (subst drain_unfold) simp
  next
    case False
    have P1: "P (snd (pop_dispose w s))" using step[OF False less.prems] .
    show ?thesis
    proof (cases "fst (pop_dispose w s) = Throw")
      case True
      then show ?thesis using False P1 by (subst drain_unfold) simp
    next
      case nt: False
      have "P (snd (drain w (snd (pop_dispose w s))))"
        using less.hyps[OF pop_dispose_length[OF False] P1] .
      then show ?thesis using False nt by (subst drain_unfold) simp
    qed
  qed
qed

lemma dispose_preserves:
  assumes clear: "\<And>s. P s \<Longrightarrow> P (s\<lparr>currentPanel := None\<rparr>)"
    and mark: "\<And>s p. P s \<Longrightarrow> P (s\<lparr>panels := (panels s)(p := (panels s p)\<lparr>isDisposed := True\<rparr>)\<rparr>)"
    and pop: "\<And>s w. disposables (instances s w) \<noteq> [] \<Longrightarrow> P s \<Longrightarrow> P (snd (pop_dispose w s))"
  shows "P s \<Longrightarrow> P (snd (Webview_dispose w s))"
    and "P s' \<Longrightarrow> P (WebviewPanel_dispose p s')"
    and "P s'' \<Longrightarrow> P (fire_onDidDispose ls s'')"
proof (induction w s and p s' and ls s'' rule: Webview_dispose_WebviewPanel_dispose_fire_onDidDispose.induct)
  case (1 w s)
  have "P (WebviewPanel_dispose (panel (instances s w)) (s\<lparr>currentPanel := None\<rparr>))"
    using 1 clear by simp
  then have "P (snd (drain w (WebviewPanel_dispose (panel (instances s w)) (s\<lparr>currentPanel := None\<rparr>))))"
    using drain_preserves[of w P] pop by blast
  then show ?case by (simp add: Webview_dispose.simps Let_def)
next
  case (2 p s)
  show ?case
  proof (cases "p < nextPanel s \<and> \<not> isDisposed (panels s p)")
    case True
    then show ?thesis using 2 mark by (simp add: WebviewPanel_dispose.simps Let_def)
  next
    case False
    then show ?thesis using 2(2) by (auto simp: WebviewPanel_dispose.simps)
  qed
qed simp_all

lemma pop_dispose_fields [simp]:
  "currentPanel (snd (pop_dispose w s)) = currentPanel s"
  "panels (snd (pop_dispose w s)) = panels s"
  "nextPanel (snd (pop_dispose w s)) = nextPanel s"
  "nextWebview (snd (pop_dispose w s)) = nextWebview s"
  "nextRegistration (snd (pop_dispose w s)) = nextRegistration s"
  "faulty (snd (pop_dispose w s)) = faulty s"
  "promises (snd (pop_dispose w s)) = promises s"
  "errorMessages (snd (pop_dispose w s)) = errorMessages s"
  "posted (snd (pop_dispose w s)) = posted s"
  "revealed (snd (pop_dispose w s)) = revealed s"
  "randomSource (snd (pop_dispose w s)) = randomSource s"
  "randomCalls (snd (pop_dispose w s)) = randomCalls s"
  "hostCspSource (snd (pop_dispose w s)) = hostCspSource s"
  "disposeCalls (snd (pop_dispose w s)) = disposeCalls s @ [last (disposables (instances s w))]"
  "instances (snd (pop_dispose w s)) =
     (instances s)(w := (instances s w)\<lparr>disposables := butlast (disposables (instances s w))\<rparr>)"
  "fst (pop_dispose w s) = (if last (disposables (instances s w)) \<in> set (faulty s) then Throw else Normal)"
  "listeners (snd (pop_dispose w s)) =
     (if last (disposables (instances s w)) \<in> set (faulty s) then listeners s
      else filter (\<lambda>r. reg_id r \<noteq> last (disposables (instances s w))) (listeners s))"
  by (simp_all add: pop_dispose_def Disposable_dispose_def)

text \<open>What disposal leaves alone.\<close>

lemma dispose_frame:
  "promises (snd (Webview_dispose w s)) = promises s \<and>
   faulty (snd (Webview_dispose w s)) = faulty s \<and>
   nextPanel (snd (Webview_dispose w s)) = nextPanel s \<and>
   nextWebview (snd (Webview_dispose w s)) = nextWebview s \<and>
   nextRegistration (snd (Webview_dispose w s)) = nextRegistration s \<and>
   errorMessages (snd (Webview_dispose w s)) = errorMessages s \<and>
   posted (snd (Webview_dispose w s)) = posted s \<and>
   revealed (snd (Webview_dispose w s)) = revealed s \<and>
   randomSource (snd (Webview_dispose w s)) = randomSource s \<and>
   randomCalls (snd (Webview_dispose w s)) = randomCalls s"
  by (rule dispose_preserves(1)[where P = "\<lambda>t. promises t = promises s \<and> faulty t = faulty s \<and>
        nextPanel t = nextPanel s \<and> nextWebview t = nextWebview s \<and>
        nextRegistration t = nextRegistration s \<and> errorMessages t = errorMessages s \<and>
        posted t = posted s \<and> revealed t = revealed s \<and> randomSource t = randomSource s \<and>
        randomCalls t = randomCalls s"]) simp_all

lemma closePanel_frame:
  "promises (WebviewPanel_dispose p s) = promises s \<and>
   faulty (WebviewPanel_dispose p s) = faulty s \<and>
   nextPanel (WebviewPanel_dispose p s) = nextPanel s \<and>
   nextWebview (WebviewPanel_dispose p s) = nextWebview s \<and>
   nextRegistration (WebviewPanel_dispose p s) = nextRegistration s \<and>
   errorMessages (WebviewPanel_dispose p s) = errorMessages s \<and>
   posted (WebviewPanel_dispose p s) = posted s \<and>
   revealed (WebviewPanel_dispose p s) = revealed s \<and>
   randomSource (WebviewPanel_dispose p s) = randomSource s \<and>
   randomCalls (WebviewPanel_dispose p s) = randomCalls s"
  by (rule dispose_preserves(2)[where P = "\<lambda>t. promises t = promises s \<and> faulty t = faulty s \<and>
        nextPanel t = nextPanel s \<and> nextWebview t = nextWebview s \<and>
        nextRegistration t = nextRegistration s \<and> errorMessages t = errorMessages s \<and>
        posted t = posted s \<and> revealed t = revealed s \<and> randomSource t = randomSource s \<and>
        randomCalls t = randomCalls s"]) simp_all

lemma dispose_absent: "currentPanel (snd (Webview_dispose w s)) = None"
proof -
  have "currentPanel (WebviewPanel_dispose (panel (instances s w)) (s\<lparr>currentPanel := None\<rparr>)) = None"
    by (rule dispose_preserves(2)[where P = "\<lambda>t. currentPanel t = None"]) simp_all
  then have "currentPanel (snd (drain w (WebviewPanel_dispose (panel (instances s w)) (s\<lparr>currentPanel := None\<rparr>)))) = None"
    by (rule drain_preserves[where P = "\<lambda>t. currentPanel t = None", rotated]) simp
  then show ?thesis by (simp add: Webview_dispose.simps Let_def)
qed

lemma drain_normal:
  "set (disposables (instances s w)) \<inter> set (faulty s) = {} \<Longrightarrow>
     fst (drain w s) = Normal \<and> disposables (instances (snd (drain w s)) w) = []"
proof (induction "length (disposables (instances s w))" arbitrary: s rule: less_induct)
  case less
  show ?case
  proof (cases "disposables (instances s w) = []")
    case True
    then show ?thesis by (subst (1 2) drain_unfold) simp
  next
    case False
    have nf: "last (disposables (instances s w)) \<notin> set (faulty s)"
      using less.prems False last_in_set by blast
    have sub: "set (disposables (instances (snd (pop_dispose w s)) w)) \<inter> set (faulty (snd (pop_dispose w s))) = {}"
      using less.prems in_set_butlastD by fastforce
    from less.hyps[OF pop_dispose_length[OF False] sub] False nf
    show ?thesis by (subst (1 2) drain_unfold) simp
  qed
qed


lemma count_list_butlast:
  "xs \<noteq> [] \<Longrightarrow> count_list xs d = count_list (butlast xs) d + (if last xs = d then 1 else 0)"
  using count_list_append[of "butlast xs" "[last xs]" d] by simp

text \<open>Every call of \<open>dispose()\<close> on a handle goes with its removal from an array.\<close>

lemma pop_dispose_count:
  assumes "disposables (instances t v) \<noteq> []"
    and "(\<forall>u. u \<noteq> w \<longrightarrow> d \<notin> set (disposables (instances t u))) \<and>
         count_list (disposeCalls t) d + count_list (disposables (instances t w)) d = c"
  shows "(\<forall>u. u \<noteq> w \<longrightarrow> d \<notin> set (disposables (instances (snd (pop_dispose v t)) u))) \<and>
         count_list (disposeCalls (snd (pop_dispose v t))) d +
           count_list (disposables (instances (snd (pop_dispose v t)) w)) d = c"
proof (cases "v = w")
  case True
  then show ?thesis
    using assms count_list_butlast[of "disposables (instances t w)" d] by auto
next
  case False
  then have "last (disposables (instances t v)) \<noteq> d"
    using assms last_in_set by blast
  then show ?thesis
    using assms False by (auto dest: in_set_butlastD)
qed

lemma dispose_count:
  assumes "\<forall>u. u \<noteq> w \<longrightarrow> d \<notin> set (disposables (instances s u))"
  shows "(\<forall>u. u \<noteq> w \<longrightarrow> d \<notin> set (disposables (instances (snd (Webview_dispose v s)) u))) \<and>
         count_list (disposeCalls (snd (Webview_dispose v s))) d +
           count_list (disposables (instances (snd (Webview_dispose v s)) w)) d =
         count_list (disposeCalls s) d + count_list (disposables (instances s w)) d"
proof (rule dispose_preserves(1)[where P = "\<lambda>t. (\<forall>u. u \<noteq> w \<longrightarrow> d \<notin> set (disposables (instances t u))) \<and>
         count_list (disposeCalls t) d + count_list (disposables (instances t w)) d =
         count_list (disposeCalls s) d + count_list (disposables (instances s w)) d"], goal_cases)
  case (3 t v)
  then show ?case by (rule pop_dispose_count)
qed (use assms in simp_all)

text \<open>A handle that does not throw is detached once it has left the array.\<close>

lemma pop_dispose_detached:
  assumes "disposables (instances t v) \<noteq> []"
    and "d \<notin> set (faulty t) \<and>
         (d \<in> set (disposables (instances t w)) \<or> (\<forall>r \<in> set (listeners t). reg_id r \<noteq> d))"
  shows "d \<notin> set (faulty (snd (pop_dispose v t))) \<and>
         (d \<in> set (disposables (instances (snd (pop_dispose v t)) w)) \<or>
          (\<forall>r \<in> set (listeners (snd (pop_dispose v t))). reg_id r \<noteq> d))"
proof (cases "v = w \<and> last (disposables (instances t v)) = d")
  case True
  then show ?thesis using assms by auto
next
  case False
  show ?thesis
  proof (cases "d \<in> set (disposables (instances t w))")
    case True
    have "d \<in> set (disposables (instances (snd (pop_dispose v t)) w))"
    proof (cases "v = w")
      case vw: True
      have "disposables (instances t w) = butlast (disposables (instances t w)) @ [last (disposables (instances t w))]"
        using assms(1) vw by simp
      then have "d \<in> set (butlast (disposables (instances t w))) \<or> d = last (disposables (instances t w))"
        using True by (metis Un_iff empty_iff empty_set set_ConsD set_append)
      then show ?thesis using False vw by auto
    next
      case False
      then show ?thesis using True by simp
    qed
    then show ?thesis using assms by simp
  next
    case nin: False
    then show ?thesis using assms by auto
  qed
qed

lemma dispose_detached:
  assumes "d \<notin> set (faulty s)"
    and "d \<in> set (disposables (instances s w)) \<or> (\<forall>r \<in> set (listeners s). reg_id r \<noteq> d)"
  shows "d \<in> set (disposables (instances (snd (Webview_dispose v s)) w)) \<or>
          (\<forall>r \<in> set (listeners (snd (Webview_dispose v s))). reg_id r \<noteq> d)"
proof -
  have "d \<notin> set (faulty (snd (Webview_dispose v s))) \<and>
        (d \<in> set (disposables (instances (snd (Webview_dispose v s)) w)) \<or>
          (\<forall>r \<in> set (listeners (snd (Webview_dispose v s))). reg_id r \<noteq> d))"
  proof (rule dispose_preserves(1)[where P = "\<lambda>t. d \<notin> set (faulty t) \<and>
         (d \<in> set (disposables (instances t w)) \<or> (\<forall>r \<in> set (listeners t). reg_id r \<noteq> d))"], goal_cases)
    case (3 t v)
    then show ?case by (rule pop_dispose_detached)
  qed (use assms in simp_all)
  then show ?thesis by simp
qed

text \<open>Disposal only takes elements off the arrays, and a disposed panel stays disposed.\<close>

lemma closePanel_nothrow:
  assumes "set (disposables (instances s w)) \<inter> set (faulty s) = {}"
  shows "set (disposables (instances (WebviewPanel_dispose p s) w)) \<inter> set (faulty (WebviewPanel_dispose p s)) = {}"
proof (rule dispose_preserves(2)[where P = "\<lambda>t. set (disposables (instances t w)) \<inter> set (faulty t) = {}"])
  fix t :: World and v
  assume "set (disposables (instances t w)) \<inter> set (faulty t) = {}"
  then show "set (disposables (instances (snd (pop_dispose v t)) w)) \<inter> set (faulty (snd (pop_dispose v t))) = {}"
    by (auto dest: in_set_butlastD)
qed (use assms in simp_all)

lemma closePanel_disposed:
  "p < nextPanel s \<Longrightarrow> isDisposed (panels (WebviewPanel_dispose p s) p)"
proof (cases "isDisposed (panels s p)")
  case True
  then show ?thesis by (simp add: WebviewPanel_dispose.simps)
next
  case False
  assume p: "p < nextPanel s"
  let ?s1 = "s\<lparr>panels := (panels s)(p := (panels s p)\<lparr>isDisposed := True\<rparr>)\<rparr>"
  have "isDisposed (panels (fire_onDidDispose
          (map reg_listener (filter (\<lambda>r. reg_panel r = p \<and> event_of (reg_listener r) = OnDidDispose)
             (listeners ?s1))) ?s1) p)"
    by (rule dispose_preserves(3)[where P = "\<lambda>t. isDisposed (panels t p)"]) simp_all
  then show ?thesis using False p by (simp add: WebviewPanel_dispose.simps Let_def)
qed


lemma distinct_count_one: "distinct xs \<Longrightarrow> d \<in> set xs \<Longrightarrow> count_list xs d = 1"
  by (induction xs) auto

lemma render_absent_panel:
  assumes "currentPanel s = None"
  shows "panels (snd (render uri col s)) =
     (panels s)(nextPanel s :=
        \<lparr>viewType = Webview_viewType, title = Webview_title, viewColumn = col, options = getOptions uri,
         html = html (panels (snd (render uri col s)) (nextPanel s)),
         cspSource = hostCspSource s, visible = True, isDisposed = False\<rparr>)"
  using assms
  by (simp add: render_def Let_def new_Promise_def split_def create_def createWebviewPanel_def
      new_Webview_def update_eq)


lemma faultyWorld_fields:
  "currentPanel faultyWorld = Some 0"
  "nextPanel faultyWorld = 1"
  "faulty faultyWorld = [2]"
  "disposeCalls faultyWorld = []"
  "instances faultyWorld 0 = \<lparr>panel = 0, extensionUri = extUri, disposables = [0, 1, 2, 3]\<rparr>"
  "listeners faultyWorld =
     [\<lparr>reg_id = 0, reg_panel = 0, reg_listener = DisposeListener 0\<rparr>,
      \<lparr>reg_id = 1, reg_panel = 0, reg_listener = HandleMessageListener\<rparr>,
      \<lparr>reg_id = 2, reg_panel = 0, reg_listener = ViewStateListener 0\<rparr>,
      \<lparr>reg_id = 3, reg_panel = 0, reg_listener = HandshakeListener 0\<rparr>]"
  "isDisposed (panels faultyWorld 0) = False"
proof -
  have a: "currentPanel (initial zeros [2]) = None" by (simp add: initial_def)
  show "currentPanel faultyWorld = Some 0" "nextPanel faultyWorld = 1" "faulty faultyWorld = [2]"
    "disposeCalls faultyWorld = []"
    "instances faultyWorld 0 = \<lparr>panel = 0, extensionUri = extUri, disposables = [0, 1, 2, 3]\<rparr>"
    "listeners faultyWorld =
     [\<lparr>reg_id = 0, reg_panel = 0, reg_listener = DisposeListener 0\<rparr>,
      \<lparr>reg_id = 1, reg_panel = 0, reg_listener = HandleMessageListener\<rparr>,
      \<lparr>reg_id = 2, reg_panel = 0, reg_listener = ViewStateListener 0\<rparr>,
      \<lparr>reg_id = 3, reg_panel = 0, reg_listener = HandshakeListener 0\<rparr>]"
    unfolding faultyWorld_def
    by (simp_all add: render_absent[OF a] render_absent_more[OF a]) (simp_all add: initial_def)
  show "isDisposed (panels faultyWorld 0) = False"
    unfolding faultyWorld_def
    by (subst render_absent_panel[OF a]) (simp add: initial_def)
qed

lemma closing_dispose:
  "fst (Webview_dispose 0 closingWorld) = Throw \<and>
   disposeCalls (snd (Webview_dispose 0 closingWorld)) = [3, 2] \<and>
   disposables (instances (snd (Webview_dispose 0 closingWorld)) 0) = [0, 1]"
proof -
  let ?x = "closingWorld\<lparr>currentPanel := None\<rparr>"
  let ?x1 = "snd (pop_dispose 0 ?x)"
  let ?x2 = "snd (pop_dispose 0 ?x1)"
  have p: "panel (instances closingWorld 0) = 0" "isDisposed (panels (closingWorld\<lparr>currentPanel := None\<rparr>) 0)"
    by (simp_all add: closingWorld_def faultyWorld_fields)
  have "WebviewPanel_dispose 0 ?x = ?x"
    using p(2) by (subst WebviewPanel_dispose.simps) simp
  then have w: "Webview_dispose 0 closingWorld = drain 0 ?x"
    using p(1) by (simp add: Webview_dispose.simps Let_def)
  have x: "disposables (instances closingWorld 0) = [0, 1, 2, 3]" "faulty closingWorld = [2]"
    "disposeCalls closingWorld = []"
    by (simp_all add: closingWorld_def faultyWorld_fields)
  have d1: "drain 0 ?x = drain 0 ?x1"
    by (subst drain_unfold) (simp add: x)
  have d2: "drain 0 ?x1 = (Throw, ?x2)"
    by (subst drain_unfold) (simp add: x)
  have x2: "disposables (instances ?x2 0) = [0, 1]" "disposeCalls ?x2 = [3, 2]"
    by (simp_all add: x)
  show ?thesis
    by (simp only: w d1 d2 fst_conv snd_conv x2)
qed


lemma closePanel_faultyWorld:
  "closePanel 0 faultyWorld = snd (Webview_dispose 0 closingWorld)"
proof -
  have l: "map reg_listener (filter (\<lambda>r. reg_panel r = 0 \<and> event_of (reg_listener r) = OnDidDispose)
             (listeners closingWorld)) = [DisposeListener 0]"
    by (simp add: closingWorld_def faultyWorld_fields)
  have "WebviewPanel_dispose 0 faultyWorld = fire_onDidDispose [DisposeListener 0] closingWorld"
    by (subst WebviewPanel_dispose.simps)
       (simp add: faultyWorld_fields Let_def l[unfolded closingWorld_def] closingWorld_def)
  then show ?thesis by (simp add: closePanel_def)
qed

text \<open>
  C3 (as the code has it). \<open>dispose()\<close> first clears \<open>Webview.currentPanel\<close>, then
  disposes the panel (the re-entrant \<open>dispose()\<close> of the panel's listener starts from
  the cleared reference), then drains the array from its end. When no handle
  registered with the object throws, and the handles are registered once and with
  this object only, the call returns normally with the reference undefined, the panel
  disposed and the array empty; every handle has been invoked exactly once and none
  of them is attached any more. A second \<open>dispose()\<close> returns normally too, leaves
  the reference undefined and invokes no handle again.
\<close>

theorem dispose_drains_once:
  assumes nothrow: "set (disposables (instances s w)) \<inter> set (faulty s) = {}"
    and dist: "distinct (disposables (instances s w))"
    and own: "\<forall>v. v \<noteq> w \<longrightarrow> set (disposables (instances s v)) \<inter> set (disposables (instances s w)) = {}"
  shows "Webview_dispose w s =
       drain w (WebviewPanel_dispose (panel (instances s w)) (s\<lparr>currentPanel := None\<rparr>)) \<and>
     fst (Webview_dispose w s) = Normal \<and>
     currentPanel (snd (Webview_dispose w s)) = None \<and>
     (panel (instances s w) < nextPanel s \<longrightarrow>
        isDisposed (panels (snd (Webview_dispose w s)) (panel (instances s w)))) \<and>
     disposables (instances (snd (Webview_dispose w s)) w) = [] \<and>
     (\<forall>d \<in> set (disposables (instances s w)).
        count_list (disposeCalls (snd (Webview_dispose w s))) d = count_list (disposeCalls s) d + 1) \<and>
     (\<forall>r \<in> set (listeners (snd (Webview_dispose w s))). reg_id r \<notin> set (disposables (instances s w))) \<and>
     fst (Webview_dispose w (snd (Webview_dispose w s))) = Normal \<and>
     currentPanel (snd (Webview_dispose w (snd (Webview_dispose w s)))) = None \<and>
     (\<forall>d \<in> set (disposables (instances s w)).
        count_list (disposeCalls (snd (Webview_dispose w (snd (Webview_dispose w s))))) d =
          count_list (disposeCalls s) d + 1)"
proof -
  let ?p = "panel (instances s w)"
  let ?s1 = "s\<lparr>currentPanel := None\<rparr>"
  let ?s2 = "WebviewPanel_dispose ?p ?s1"
  let ?s' = "snd (Webview_dispose w s)"
  let ?s'' = "snd (Webview_dispose w ?s')"
  have eq: "Webview_dispose w s = drain w ?s2"
    by (simp add: Webview_dispose.simps Let_def)
  have "set (disposables (instances ?s1 w)) \<inter> set (faulty ?s1) = {}"
    using nothrow by simp
  then have nt2: "set (disposables (instances ?s2 w)) \<inter> set (faulty ?s2) = {}"
    by (rule closePanel_nothrow)
  have normal: "fst (Webview_dispose w s) = Normal" and empty: "disposables (instances ?s' w) = []"
    using drain_normal[OF nt2] by (simp_all add: eq)
  have disposed: "?p < nextPanel s \<longrightarrow> isDisposed (panels ?s' ?p)"
  proof
    assume "?p < nextPanel s"
    then have "isDisposed (panels ?s2 ?p)"
      using closePanel_disposed[of ?p ?s1] by simp
    then show "isDisposed (panels ?s' ?p)"
      using drain_frame[of w ?s2] by (simp add: eq)
  qed
  have once: "count_list (disposeCalls ?s') d = count_list (disposeCalls s) d + 1"
    and twice: "count_list (disposeCalls ?s'') d = count_list (disposeCalls s) d + 1"
    and gone: "\<forall>r \<in> set (listeners ?s'). reg_id r \<noteq> d"
    if d: "d \<in> set (disposables (instances s w))" for d
  proof -
    have U: "\<forall>u. u \<noteq> w \<longrightarrow> d \<notin> set (disposables (instances s u))"
      using own d by blast
    from dispose_count[OF U, of w]
    have U': "\<forall>u. u \<noteq> w \<longrightarrow> d \<notin> set (disposables (instances ?s' u))"
      and c: "count_list (disposeCalls ?s') d + count_list (disposables (instances ?s' w)) d =
              count_list (disposeCalls s) d + count_list (disposables (instances s w)) d"
      by simp_all
    show 1: "count_list (disposeCalls ?s') d = count_list (disposeCalls s) d + 1"
      using c empty distinct_count_one[OF dist d] by simp
    have nt': "set (disposables (instances ?s' w)) \<inter> set (faulty ?s') = {}"
      using empty by simp
    have "Webview_dispose w ?s' =
            drain w (WebviewPanel_dispose (panel (instances ?s' w)) (?s'\<lparr>currentPanel := None\<rparr>))"
      by (simp add: Webview_dispose.simps Let_def)
    moreover have "set (disposables (instances (WebviewPanel_dispose (panel (instances ?s' w)) (?s'\<lparr>currentPanel := None\<rparr>)) w))
        \<inter> set (faulty (WebviewPanel_dispose (panel (instances ?s' w)) (?s'\<lparr>currentPanel := None\<rparr>))) = {}"
      by (rule closePanel_nothrow) (use empty in simp)
    ultimately have empty'': "disposables (instances ?s'' w) = []"
      using drain_normal by simp
    from dispose_count[OF U', of w] empty empty''
    show "count_list (disposeCalls ?s'') d = count_list (disposeCalls s) d + 1"
      using 1 by simp
    have "d \<notin> set (faulty s)" using nothrow d by blast
    from dispose_detached[OF this, of w w] d empty
    show "\<forall>r \<in> set (listeners ?s'). reg_id r \<noteq> d" by simp
  qed
  have normal2: "fst (Webview_dispose w ?s') = Normal"
  proof -
    have "set (disposables (instances (WebviewPanel_dispose (panel (instances ?s' w)) (?s'\<lparr>currentPanel := None\<rparr>)) w))
        \<inter> set (faulty (WebviewPanel_dispose (panel (instances ?s' w)) (?s'\<lparr>currentPanel := None\<rparr>))) = {}"
      by (rule closePanel_nothrow) (use empty in simp)
    then show ?thesis
      using drain_normal by (simp add: Webview_dispose.simps Let_def)
  qed
  have gone': "\<forall>r \<in> set (listeners ?s'). reg_id r \<notin> set (disposables (instances s w))"
    using gone by blast
  show ?thesis
    using eq normal dispose_absent[of w s] dispose_absent[of w ?s'] empty disposed once twice gone' normal2
    by blast
qed

theorem dispose_drains_once_witness:
  "set (disposables (instances renderedWorld 0)) \<inter> set (faulty renderedWorld) = {} \<and>
   distinct (disposables (instances renderedWorld 0)) \<and>
   disposables (instances renderedWorld 0) = [0, 1, 2, 3] \<and>
   disposables (instances renderedWorld 1) = [] \<and>
   fst (Webview_dispose 0 renderedWorld) = Normal \<and>
   currentPanel (snd (Webview_dispose 0 renderedWorld)) = None \<and>
   isDisposed (panels (snd (Webview_dispose 0 renderedWorld)) 0) \<and>
   disposables (instances (snd (Webview_dispose 0 renderedWorld)) 0) = [] \<and>
   count_list (disposeCalls (snd (Webview_dispose 0 renderedWorld))) 3 = 1 \<and>
   count_list (disposeCalls (snd (Webview_dispose 0 renderedWorld))) 0 = 1 \<and>
   fst (Webview_dispose 0 (snd (Webview_dispose 0 renderedWorld))) = Normal \<and>
   count_list (disposeCalls (snd (Webview_dispose 0 (snd (Webview_dispose 0 renderedWorld))))) 0 = 1"
proof -
  have a: "currentPanel freshWorld = None" by (simp add: freshWorld_def initial_def)
  have i: "instances renderedWorld = (instances freshWorld)(0 :=
             \<lparr>panel = 0, extensionUri = extUri, disposables = [0, 1, 2, 3]\<rparr>)"
    and f: "faulty renderedWorld = []" and c: "disposeCalls renderedWorld = []"
    and n: "nextPanel renderedWorld = 1"
    unfolding renderedWorld_def
    by (simp_all add: render_absent_more[OF a] render_absent[OF a])
       (simp_all add: freshWorld_def initial_def numeral_2_eq_2)
  have h1: "set (disposables (instances renderedWorld 0)) \<inter> set (faulty renderedWorld) = {}"
    by (simp add: f)
  have h2: "distinct (disposables (instances renderedWorld 0))"
    by (simp add: i)
  have h3: "\<forall>v. v \<noteq> 0 \<longrightarrow>
      set (disposables (instances renderedWorld v)) \<inter> set (disposables (instances renderedWorld 0)) = {}"
    by (simp add: i freshWorld_def initial_def)
  show ?thesis
    using h1 h2 h3 dispose_drains_once[OF h1 h2 h3, THEN conjunct2]
    by (simp add: i c n) (simp add: freshWorld_def initial_def)
qed

text \<open>
  C3 as stated fails when a cleanup throws: the loop has no handler, so the exception
  leaves it. In the world where the disposable of registration 2 throws, closing the
  panel invokes the handles 3 and 2 only; 0 and 1 stay in the array, never invoked,
  and the \<open>dispose()\<close> the host's listener runs ends by throwing.
\<close>

theorem dispose_drains_once_counterexample:
  "faulty faultyWorld = [2] \<and>
   disposables (instances faultyWorld 0) = [0, 1, 2, 3] \<and>
   disposeCalls faultyWorld = [] \<and>
   disposeCalls (closePanel 0 faultyWorld) = [3, 2] \<and>
   disposables (instances (closePanel 0 faultyWorld) 0) = [0, 1] \<and>
   fst (Webview_dispose 0 closingWorld) = Throw \<and>
   disposeCalls (snd (Webview_dispose 0 closingWorld)) = [3, 2]"
  using closing_dispose by (simp add: closePanel_faultyWorld faultyWorld_fields)

lemma revive_fields [simp]:
  "currentPanel (revive p uri s) = Some (nextWebview s)"
  "nextWebview (revive p uri s) = Suc (nextWebview s)"
  "nextPanel (revive p uri s) = nextPanel s"
  "promises (revive p uri s) = promises s"
  "faulty (revive p uri s) = faulty s"
  "nextRegistration (revive p uri s) = nextRegistration s + 3"
  "listeners (revive p uri s) =
     listeners s @
     [\<lparr>reg_id = nextRegistration s, reg_panel = p, reg_listener = DisposeListener (nextWebview s)\<rparr>,
      \<lparr>reg_id = nextRegistration s + 1, reg_panel = p, reg_listener = HandleMessageListener\<rparr>,
      \<lparr>reg_id = nextRegistration s + 2, reg_panel = p, reg_listener = ViewStateListener (nextWebview s)\<rparr>]"
  "instances (revive p uri s) =
     (instances s)(nextWebview s := \<lparr>panel = p, extensionUri = uri,
        disposables = [nextRegistration s, nextRegistration s + 1, nextRegistration s + 2]\<rparr>)"
  using new_Webview_fields(1)[of p uri s] by (simp_all add: revive_def split_def)

lemma postMessage_fields [simp]:
  "currentPanel (postMessage m s) = currentPanel s"
  "nextWebview (postMessage m s) = nextWebview s"
  "promises (postMessage m s) = promises s"
  "faulty (postMessage m s) = faulty s"
  "nextRegistration (postMessage m s) = nextRegistration s"
  "listeners (postMessage m s) = listeners s"
  "instances (postMessage m s) = instances s"
  "panels (postMessage m s) = panels s"
  by (simp_all add: postMessage_def webview_postMessage_def split: option.splits)

lemma settle_more [simp]:
  "currentPanel (settle k v s) = currentPanel s"
  "nextWebview (settle k v s) = nextWebview s"
  "nextRegistration (settle k v s) = nextRegistration s"
  "faulty (settle k v s) = faulty s"
  by (simp_all add: settle_def)

lemma handleMessage_more [simp]:
  "currentPanel (handleMessage m s) = currentPanel s"
  "nextWebview (handleMessage m s) = nextWebview s"
  "nextRegistration (handleMessage m s) = nextRegistration s"
  "faulty (handleMessage m s) = faulty s"
  by (simp_all add: handleMessage_def showErrorMessage_def)

lemma deliver_fields [simp]:
  "currentPanel (deliver m l s) = currentPanel s"
  "nextWebview (deliver m l s) = nextWebview s"
  "nextRegistration (deliver m l s) = nextRegistration s"
  "faulty (deliver m l s) = faulty s"
  "listeners (deliver m l s) = listeners s"
  "instances (deliver m l s) = instances s"
  "panels (deliver m l s) = panels s"
  "length (promises (deliver m l s)) = length (promises s)"
  by (cases l; simp add: handshake_def)+

lemma fold_deliver_fields [simp]:
  "currentPanel (fold (deliver m) ls s) = currentPanel s"
  "nextWebview (fold (deliver m) ls s) = nextWebview s"
  "nextRegistration (fold (deliver m) ls s) = nextRegistration s"
  "faulty (fold (deliver m) ls s) = faulty s"
  "listeners (fold (deliver m) ls s) = listeners s"
  "instances (fold (deliver m) ls s) = instances s"
  "panels (fold (deliver m) ls s) = panels s"
  "length (promises (fold (deliver m) ls s)) = length (promises s)"
  by (induction ls arbitrary: s; simp)+

lemma receiveMessage_fields [simp]:
  "currentPanel (receiveMessage p m s) = currentPanel s"
  "nextWebview (receiveMessage p m s) = nextWebview s"
  "nextRegistration (receiveMessage p m s) = nextRegistration s"
  "faulty (receiveMessage p m s) = faulty s"
  "listeners (receiveMessage p m s) = listeners s"
  "instances (receiveMessage p m s) = instances s"
  "panels (receiveMessage p m s) = panels s"
  "length (promises (receiveMessage p m s)) = length (promises s)"
  by (simp_all add: receiveMessage_def)

lemma notify_fields [simp]:
  "currentPanel (notify l s) = currentPanel s"
  "nextWebview (notify l s) = nextWebview s"
  "nextRegistration (notify l s) = nextRegistration s"
  "faulty (notify l s) = faulty s"
  "listeners (notify l s) = listeners s"
  "instances (notify l s) = instances s"
  "promises (notify l s) = promises s"
  "errorMessages (notify l s) = errorMessages s"
  by (cases l; simp add: viewStateChanged_def)+

lemma fold_notify_fields [simp]:
  "currentPanel (fold notify ls s) = currentPanel s"
  "nextWebview (fold notify ls s) = nextWebview s"
  "nextRegistration (fold notify ls s) = nextRegistration s"
  "faulty (fold notify ls s) = faulty s"
  "listeners (fold notify ls s) = listeners s"
  "instances (fold notify ls s) = instances s"
  "promises (fold notify ls s) = promises s"
  "errorMessages (fold notify ls s) = errorMessages s"
  by (induction ls arbitrary: s; simp)+

lemma changeViewState_fields [simp]:
  "currentPanel (changeViewState p vis s) = currentPanel s"
  "nextWebview (changeViewState p vis s) = nextWebview s"
  "nextRegistration (changeViewState p vis s) = nextRegistration s"
  "faulty (changeViewState p vis s) = faulty s"
  "listeners (changeViewState p vis s) = listeners s"
  "instances (changeViewState p vis s) = instances s"
  "promises (changeViewState p vis s) = promises s"
  "errorMessages (changeViewState p vis s) = errorMessages s"
  by (simp_all add: changeViewState_def Let_def)

lemma consistent_initial: "consistent (initial rnd bad)"
  by (simp add: consistent_def initial_def)

lemma consistent_render: "consistent s \<Longrightarrow> consistent (snd (render uri col s))"
proof (cases "currentPanel s")
  case None
  assume c: "consistent s"
  show ?thesis
    using c unfolding consistent_def
    by (simp add: render_absent[OF None] render_absent_more[OF None] less_Suc_eq None)
       (fastforce intro: trans_less_add1 le_SucI)
next
  case (Some w)
  assume c: "consistent s"
  show ?thesis
    using c unfolding consistent_def
    by (simp add: render_tracked[OF Some] render_tracked_more[OF Some] Some)
       (fastforce intro: less_SucI le_SucI)
qed

lemma consistent_revive: "consistent s \<Longrightarrow> consistent (revive p uri s)"
  unfolding consistent_def
  by (simp add: less_Suc_eq) (fastforce intro: trans_less_add1)

lemma consistent_postMessage: "consistent s \<Longrightarrow> consistent (postMessage m s)"
  unfolding consistent_def by simp

lemma consistent_receiveMessage: "consistent s \<Longrightarrow> consistent (receiveMessage p m s)"
  unfolding consistent_def by simp

lemma consistent_changeViewState: "consistent s \<Longrightarrow> consistent (changeViewState p vis s)"
  unfolding consistent_def by simp

lemma consistent_pop:
  "consistent s \<Longrightarrow> consistent (snd (pop_dispose v s))"
  unfolding consistent_def
  by (auto dest: in_set_butlastD)

lemma consistent_clear: "consistent s \<Longrightarrow> consistent (s\<lparr>currentPanel := None\<rparr>)"
  unfolding consistent_def by simp

lemma consistent_mark:
  "consistent s \<Longrightarrow> consistent (s\<lparr>panels := (panels s)(p := (panels s p)\<lparr>isDisposed := True\<rparr>)\<rparr>)"
  unfolding consistent_def by simp

lemma consistent_dispose:
  "consistent s \<Longrightarrow> consistent (snd (Webview_dispose w s))"
  by (rule dispose_preserves(1)[where P = consistent])
     (simp_all add: consistent_pop consistent_clear consistent_mark)

lemma consistent_closePanel:
  "consistent s \<Longrightarrow> consistent (closePanel p s)"
  unfolding closePanel_def
  by (rule dispose_preserves(2)[where P = consistent])
     (simp_all add: consistent_pop consistent_clear consistent_mark)

lemma consistent_step: "consistent s \<Longrightarrow> consistent (step a s)"
  by (cases a)
     (simp_all add: consistent_render consistent_revive consistent_postMessage consistent_dispose
        consistent_receiveMessage consistent_changeViewState consistent_closePanel)

lemma consistent_run: "consistent s \<Longrightarrow> consistent (run acts s)"
  unfolding run_def by (induction acts arbitrary: s) (simp_all add: consistent_step)

text \<open>A pending promise whose handshake closure is attached nowhere stays pending.\<close>

lemma abandoned_render: "abandoned k s \<Longrightarrow> abandoned k (snd (render uri col s))"
proof (cases "currentPanel s")
  case None
  assume "abandoned k s"
  then show ?thesis
    unfolding abandoned_def
    by (auto simp: render_absent_more[OF None] nth_append)
next
  case (Some w)
  assume "abandoned k s"
  then show ?thesis
    unfolding abandoned_def
    by (auto simp: render_tracked_more[OF Some] nth_append)
qed

lemma abandoned_revive: "abandoned k s \<Longrightarrow> abandoned k (revive p uri s)"
  unfolding abandoned_def by auto

lemma abandoned_postMessage: "abandoned k s \<Longrightarrow> abandoned k (postMessage m s)"
  unfolding abandoned_def by simp

lemma abandoned_changeViewState: "abandoned k s \<Longrightarrow> abandoned k (changeViewState p vis s)"
  unfolding abandoned_def by simp

lemma abandoned_deliver:
  "abandoned k s \<Longrightarrow> l \<noteq> HandshakeListener k \<Longrightarrow> abandoned k (deliver m l s)"
  unfolding abandoned_def
  by (cases l) (auto simp: handshake_def settle_def)

lemma abandoned_fold_deliver:
  "abandoned k s \<Longrightarrow> \<forall>l \<in> set ls. l \<noteq> HandshakeListener k \<Longrightarrow> abandoned k (fold (deliver m) ls s)"
  by (induction ls arbitrary: s) (simp_all add: abandoned_deliver)

lemma abandoned_receiveMessage: "abandoned k s \<Longrightarrow> abandoned k (receiveMessage p m s)"
  unfolding receiveMessage_def
  by (rule abandoned_fold_deliver) (auto simp: abandoned_def messageListeners_def)

lemma abandoned_pop: "abandoned k s \<Longrightarrow> abandoned k (snd (pop_dispose v s))"
  unfolding abandoned_def by simp

lemma abandoned_dispose: "abandoned k s \<Longrightarrow> abandoned k (snd (Webview_dispose w s))"
  by (rule dispose_preserves(1)[where P = "abandoned k"])
     (simp_all add: abandoned_pop, simp_all add: abandoned_def)

lemma abandoned_closePanel: "abandoned k s \<Longrightarrow> abandoned k (closePanel p s)"
  unfolding closePanel_def
  by (rule dispose_preserves(2)[where P = "abandoned k"])
     (simp_all add: abandoned_pop, simp_all add: abandoned_def)

lemma abandoned_step: "abandoned k s \<Longrightarrow> abandoned k (step a s)"
  by (cases a)
     (simp_all add: abandoned_render abandoned_revive abandoned_postMessage abandoned_dispose
        abandoned_receiveMessage abandoned_changeViewState abandoned_closePanel)

lemma abandoned_run: "abandoned k s \<Longrightarrow> abandoned k (run acts s)"
  unfolding run_def by (induction acts arbitrary: s) (simp_all add: abandoned_step)

lemma detached_armed: "detached d w k t \<Longrightarrow> d \<notin> set (faulty t) \<Longrightarrow> armed d w k t"
  unfolding detached_def armed_def by simp

lemma armed_pop:
  "disposables (instances t v) \<noteq> [] \<Longrightarrow> armed d w k t \<Longrightarrow> armed d w k (snd (pop_dispose v t))"
  unfolding armed_def
  by (cases "v = w") (auto dest: in_set_butlastD)

lemma detached_pop:
  "detached d w k t \<Longrightarrow> detached d w k (snd (pop_dispose v t))"
  unfolding detached_def
  by (auto dest: in_set_butlastD)

lemma armed_pop_own:
  "disposables (instances t w) \<noteq> [] \<Longrightarrow> armed d w k t \<Longrightarrow> detached d w k (snd (pop_dispose w t))"
  unfolding armed_def detached_def
  by (auto dest: in_set_butlastD)

lemma detached_drain: "detached d w k t \<Longrightarrow> detached d w k (snd (drain v t))"
  by (rule drain_preserves[where P = "detached d w k"]) (simp_all add: detached_pop)

lemma armed_drain: "armed d w k t \<Longrightarrow> detached d w k (snd (drain w t))"
proof (cases "disposables (instances t w) = []")
  case True
  assume "armed d w k t"
  then have "detached d w k t" using True unfolding armed_def detached_def by simp
  then show ?thesis using True by (subst drain_unfold) simp
next
  case False
  assume a: "armed d w k t"
  have d1: "detached d w k (snd (pop_dispose w t))"
    using armed_pop_own[OF False a] .
  show ?thesis
  proof (cases "fst (pop_dispose w t) = Throw")
    case True
    then show ?thesis using False d1 by (subst drain_unfold) simp
  next
    case nt: False
    have "detached d w k (snd (drain w (snd (pop_dispose w t))))"
      using d1 by (rule detached_drain)
    then show ?thesis using False nt by (subst drain_unfold) simp
  qed
qed

lemma armed_closePanel: "armed d w k t \<Longrightarrow> armed d w k (WebviewPanel_dispose p t)"
  by (rule dispose_preserves(2)[where P = "armed d w k"])
     (simp_all add: armed_pop, simp_all add: armed_def)

lemma armed_dispose_other: "armed d w k t \<Longrightarrow> armed d w k (snd (Webview_dispose v t))"
  by (rule dispose_preserves(1)[where P = "armed d w k"])
     (simp_all add: armed_pop, simp_all add: armed_def)

lemma detached_fire: "detached d w k t \<Longrightarrow> detached d w k (fire_onDidDispose ls t)"
  by (rule dispose_preserves(3)[where P = "detached d w k"])
     (simp_all add: detached_pop, simp_all add: detached_def)

lemma armed_dispose: "armed d w k t \<Longrightarrow> detached d w k (snd (Webview_dispose w t))"
proof -
  assume a: "armed d w k t"
  have "armed d w k (t\<lparr>currentPanel := None\<rparr>)"
    using a unfolding armed_def by simp
  then have "armed d w k (WebviewPanel_dispose (panel (instances t w)) (t\<lparr>currentPanel := None\<rparr>))"
    by (rule armed_closePanel)
  then have "detached d w k (snd (drain w (WebviewPanel_dispose (panel (instances t w)) (t\<lparr>currentPanel := None\<rparr>))))"
    by (rule armed_drain)
  then show ?thesis by (simp add: Webview_dispose.simps Let_def)
qed

lemma armed_fire:
  "armed d w k t \<Longrightarrow> DisposeListener w \<in> set ls \<Longrightarrow> detached d w k (fire_onDidDispose ls t)"
proof (induction ls arbitrary: t)
  case Nil
  then show ?case by simp
next
  case (Cons l ls)
  show ?case
  proof (cases l)
    case (DisposeListener v)
    show ?thesis
    proof (cases "v = w")
      case True
      have "detached d w k (snd (Webview_dispose w t))"
        using armed_dispose[OF Cons.prems(1)] .
      then show ?thesis
        using DisposeListener True by (simp add: detached_fire)
    next
      case False
      have "armed d w k (snd (Webview_dispose v t))"
        using armed_dispose_other[OF Cons.prems(1)] .
      moreover have "DisposeListener w \<in> set ls"
        using Cons.prems(2) DisposeListener False by simp
      ultimately show ?thesis
        using Cons.IH DisposeListener by simp
    qed
  qed (use Cons in simp_all)
qed

lemma detached_abandoned:
  "detached d w k t \<Longrightarrow> k < length (promises t) \<Longrightarrow> promises t ! k = Pending \<Longrightarrow> abandoned k t"
  unfolding detached_def abandoned_def by blast

lemma armed_render_absent:
  assumes c: "consistent s" and n: "currentPanel s = None"
    and f: "nextRegistration s + 3 \<notin> set (faulty s)"
  shows "armed (nextRegistration s + 3) (nextWebview s) (length (promises s)) (snd (render uri col s))"
proof -
  have old: "\<forall>r \<in> set (listeners s). reg_listener r \<noteq> HandshakeListener (length (promises s))"
    using c unfolding consistent_def by fastforce
  show ?thesis
    unfolding armed_def
    using f old by (auto simp: render_absent_more[OF n])
qed

lemma armed_render_tracked:
  assumes c: "consistent s" and n: "currentPanel s = Some w"
    and f: "nextRegistration s \<notin> set (faulty s)"
  shows "armed (nextRegistration s) w (length (promises s)) (snd (render uri col s))"
proof -
  have old: "\<forall>r \<in> set (listeners s). reg_listener r \<noteq> HandshakeListener (length (promises s))"
    using c unfolding consistent_def by fastforce
  have "w < nextWebview s" using c n unfolding consistent_def by simp
  then have new: "nextRegistration s \<notin> set (disposables (instances s w))"
    using c unfolding consistent_def by fastforce
  show ?thesis
    unfolding armed_def
    using f old new by (auto simp: render_tracked_more[OF n])
qed

subsection \<open>The handshake and disposal\<close>

text \<open>
  C9. No step of a disposal settles a promise: \<open>dispose()\<close> and the closing of a panel
  leave all promises as they are. After a \<open>render\<close> call, the promise it returned is
  pending; when the tracked object is then disposed (or, after a \<open>render\<close> that
  constructed the panel, the user closes the panel) before a message arrives, the
  handshake closure is detached for good, so whatever happens afterwards, calls and
  events in any number and order, the promise stays pending: it never resolves and
  never rejects. The world is a consistent one and the handle of the handshake
  registration is one that does not throw.
\<close>

theorem handshake_pending_after_disposal:
  assumes c: "consistent s"
    and f: "nextRegistration (snd (render uri col s)) - 1 \<notin> set (faulty s)"
  shows "promises (snd (Webview_dispose v (snd (render uri col s)))) = promises (snd (render uri col s)) \<and>
     promises (closePanel p (snd (render uri col s))) = promises (snd (render uri col s)) \<and>
     promises (snd (render uri col s)) ! fst (render uri col s) = Pending \<and>
     (currentPanel s = Some w \<longrightarrow>
        promises (run acts (snd (Webview_dispose w (snd (render uri col s))))) ! fst (render uri col s) = Pending) \<and>
     (currentPanel s = None \<longrightarrow>
        promises (run acts (snd (Webview_dispose (nextWebview s) (snd (render uri col s))))) ! fst (render uri col s) = Pending \<and>
        promises (run acts (closePanel (nextPanel s) (snd (render uri col s)))) ! fst (render uri col s) = Pending)"
proof -
  let ?s1 = "snd (render uri col s)"
  let ?k = "length (promises s)"
  have k: "fst (render uri col s) = ?k" and pr: "promises ?s1 = promises s @ [Pending]"
    by (cases "currentPanel s"; simp add: render_absent_more render_tracked_more)+
  have pend: "?k < length (promises ?s1)" "promises ?s1 ! ?k = Pending"
    by (simp_all add: pr)
  have frame1: "promises (snd (Webview_dispose v ?s1)) = promises ?s1" for v
    using dispose_frame by blast
  have frame2: "promises (closePanel p ?s1) = promises ?s1" for p
    unfolding closePanel_def using closePanel_frame by blast
  have tracked: "promises (run acts (snd (Webview_dispose w ?s1))) ! ?k = Pending"
    if n: "currentPanel s = Some w"
  proof -
    have "nextRegistration s \<notin> set (faulty s)"
      using f by (simp add: render_tracked_more[OF n])
    then have "armed (nextRegistration s) w ?k ?s1"
      using armed_render_tracked[OF c n] by blast
    then have "detached (nextRegistration s) w ?k (snd (Webview_dispose w ?s1))"
      by (rule armed_dispose)
    then have "abandoned ?k (snd (Webview_dispose w ?s1))"
      using pend by (intro detached_abandoned) (simp_all add: frame1)
    then have "abandoned ?k (run acts (snd (Webview_dispose w ?s1)))"
      by (rule abandoned_run)
    then show ?thesis unfolding abandoned_def by blast
  qed
  have fresh: "promises (run acts (snd (Webview_dispose (nextWebview s) ?s1))) ! ?k = Pending"
    and closed: "promises (run acts (closePanel (nextPanel s) ?s1)) ! ?k = Pending"
    if n: "currentPanel s = None"
  proof -
    let ?w = "nextWebview s" and ?p = "nextPanel s" and ?d = "nextRegistration s + 3"
    have "?d \<notin> set (faulty s)"
      using f by (simp add: render_absent_more[OF n] add.commute)
    then have a: "armed ?d ?w ?k ?s1"
      using armed_render_absent[OF c n] by blast
    then have "detached ?d ?w ?k (snd (Webview_dispose ?w ?s1))"
      by (rule armed_dispose)
    then have "abandoned ?k (snd (Webview_dispose ?w ?s1))"
      using pend by (intro detached_abandoned) (simp_all add: frame1)
    then have "abandoned ?k (run acts (snd (Webview_dispose ?w ?s1)))"
      by (rule abandoned_run)
    then show "promises (run acts (snd (Webview_dispose ?w ?s1))) ! ?k = Pending"
      unfolding abandoned_def by blast
    let ?m = "?s1\<lparr>panels := (panels ?s1)(?p := (panels ?s1 ?p)\<lparr>isDisposed := True\<rparr>)\<rparr>"
    let ?L = "map reg_listener (filter (\<lambda>r. reg_panel r = ?p \<and> event_of (reg_listener r) = OnDidDispose)
                 (listeners ?m))"
    have live: "?p < nextPanel ?s1" "\<not> isDisposed (panels ?s1 ?p)"
      by (simp add: render_absent[OF n], subst render_absent_panel[OF n], simp)
    have cp: "closePanel ?p ?s1 = fire_onDidDispose ?L ?m"
      unfolding closePanel_def using live by (subst WebviewPanel_dispose.simps) (simp add: Let_def)
    have am: "armed ?d ?w ?k ?m"
      using a unfolding armed_def by simp
    have "DisposeListener ?w \<in> set ?L"
      by (simp add: render_absent_more[OF n])
    from armed_fire[OF am this] have "detached ?d ?w ?k (closePanel ?p ?s1)"
      by (simp add: cp)
    then have "abandoned ?k (closePanel ?p ?s1)"
      using pend by (intro detached_abandoned) (simp_all add: frame2)
    then have "abandoned ?k (run acts (closePanel ?p ?s1))"
      by (rule abandoned_run)
    then show "promises (run acts (closePanel ?p ?s1)) ! ?k = Pending"
      unfolding abandoned_def by blast
  qed
  show ?thesis
    using frame1[of v] frame2[of p] pend(2) tracked fresh closed by (simp add: k)
qed

theorem handshake_pending_after_disposal_witness:
  "consistent freshWorld \<and>
   currentPanel freshWorld = None \<and>
   promises renderedWorld ! 0 = Pending \<and>
   promises (run [ReceiveMessage 0 \<lparr>command = ''ready'', data = None\<rparr>, Render extUri Beside,
                  ReceiveMessage 0 \<lparr>command = ''ready'', data = None\<rparr>]
               (snd (Webview_dispose 0 renderedWorld))) ! 0 = Pending \<and>
   promises (run [ReceiveMessage 0 \<lparr>command = ''ready'', data = None\<rparr>, Render extUri Beside,
                  ReceiveMessage 0 \<lparr>command = ''ready'', data = None\<rparr>]
               (closePanel 0 renderedWorld)) ! 0 = Pending \<and>
   consistent renderedWorld \<and>
   currentPanel renderedWorld = Some 0 \<and>
   promises (run [ReceiveMessage 0 \<lparr>command = ''error'', data = Some ''late''\<rparr>]
               (snd (Webview_dispose 0 (snd (render extUri (Column 2) renderedWorld))))) ! 1 = Pending"
proof -
  have c: "consistent freshWorld"
    unfolding freshWorld_def by (rule consistent_initial)
  have n: "currentPanel freshWorld = None" and z: "nextWebview freshWorld = 0" "nextPanel freshWorld = 0"
    "promises freshWorld = []" "nextRegistration freshWorld = 0" "faulty freshWorld = []"
    by (simp_all add: freshWorld_def initial_def)
  have f: "nextRegistration (snd (render extUri Beside freshWorld)) - 1 \<notin> set (faulty freshWorld)"
    by (simp add: z)
  have k: "fst (render extUri Beside freshWorld) = 0"
    by (simp add: render_absent_more[OF n] z)
  have c': "consistent renderedWorld"
    unfolding renderedWorld_def using c by (rule consistent_render)
  have t: "currentPanel renderedWorld = Some 0" and z': "promises renderedWorld = [Pending]"
    "faulty renderedWorld = []"
    unfolding renderedWorld_def by (simp_all add: render_absent[OF n] render_absent_more[OF n] z)
  have f': "nextRegistration (snd (render extUri (Column 2) renderedWorld)) - 1 \<notin> set (faulty renderedWorld)"
    by (simp add: z')
  have k': "fst (render extUri (Column 2) renderedWorld) = 1"
    by (simp add: render_tracked_more[OF t] z')
  have fresh: "promises renderedWorld ! 0 = Pending \<and>
   promises (run [ReceiveMessage 0 \<lparr>command = ''ready'', data = None\<rparr>, Render extUri Beside,
                  ReceiveMessage 0 \<lparr>command = ''ready'', data = None\<rparr>]
               (snd (Webview_dispose 0 renderedWorld))) ! 0 = Pending \<and>
   promises (run [ReceiveMessage 0 \<lparr>command = ''ready'', data = None\<rparr>, Render extUri Beside,
                  ReceiveMessage 0 \<lparr>command = ''ready'', data = None\<rparr>]
               (closePanel 0 renderedWorld)) ! 0 = Pending"
    using n handshake_pending_after_disposal[OF c f, of 0 0 0
        "[ReceiveMessage 0 \<lparr>command = ''ready'', data = None\<rparr>, Render extUri Beside,
          ReceiveMessage 0 \<lparr>command = ''ready'', data = None\<rparr>]"]
    by (simp add: k z renderedWorld_def)
  have tracked: "promises (run [ReceiveMessage 0 \<lparr>command = ''error'', data = Some ''late''\<rparr>]
               (snd (Webview_dispose 0 (snd (render extUri (Column 2) renderedWorld))))) ! 1 = Pending"
    using t handshake_pending_after_disposal[OF c' f', of 0 0 0
        "[ReceiveMessage 0 \<lparr>command = ''error'', data = Some ''late''\<rparr>]"]
    by (simp add: k')
  show ?thesis
    using c n c' t fresh tracked by simp
qed

lemma handshake_ids_append: "handshake_ids (xs @ ys) = handshake_ids xs @ handshake_ids ys"
  by (induction xs rule: handshake_ids.induct) simp_all

lemma handshake_ids_map: "handshake_ids (map HandshakeListener ks) = ks"
  by (induction ks) simp_all

lemma handshake_ids_mem: "k \<in> set (handshake_ids ls) \<longleftrightarrow> HandshakeListener k \<in> set ls"
  by (induction ls rule: handshake_ids.induct) auto

lemma run_snoc: "run (acts @ [a]) s = step a (run acts s)"
  by (simp add: run_def)

lemma renders_snoc: "renders (calls @ [(uri, col)]) = renders calls @ [Render uri col]"
  by (simp add: renders_def)

text \<open>The state after a run of \<open>render\<close> calls on a tracked object.\<close>

lemma run_renders_tracked_state:
  assumes t: "currentPanel s = Some w"
  shows "currentPanel (run (renders calls) s) = Some w \<and>
     promises (run (renders calls) s) = promises s @ replicate (length calls) Pending \<and>
     nextRegistration (run (renders calls) s) = nextRegistration s + length calls \<and>
     listeners (run (renders calls) s) =
       listeners s @ map (\<lambda>i. \<lparr>reg_id = nextRegistration s + i, reg_panel = panel (instances s w),
                               reg_listener = HandshakeListener (length (promises s) + i)\<rparr>) [0..<length calls] \<and>
     panel (instances (run (renders calls) s) w) = panel (instances s w) \<and>
     disposables (instances (run (renders calls) s) w) =
       disposables (instances s w) @ map (\<lambda>i. nextRegistration s + i) [0..<length calls]"
proof (induction calls rule: rev_induct)
  case Nil
  then show ?case using t by (simp add: run_def renders_def)
next
  case (snoc c calls)
  obtain uri col where c: "c = (uri, col)" by (cases c)
  let ?t = "run (renders calls) s"
  have cur: "currentPanel ?t = Some w" using snoc by blast
  have st: "run (renders (calls @ [c])) s = snd (render uri col ?t)"
    by (simp add: c renders_snoc run_snoc)
  show ?case
    unfolding st
    using snoc
    by (simp add: render_tracked[OF cur] render_tracked_more[OF cur] replicate_append_same)
qed

lemma fold_deliver_verdict:
  "j < length (promises s) \<Longrightarrow>
   (promises s ! j = Pending \<and> HandshakeListener j \<in> set ls) \<or> promises s ! j = verdict m \<Longrightarrow>
   promises (fold (deliver m) ls s) ! j = verdict m"
proof (induction ls arbitrary: s)
  case Nil
  then show ?case by simp
next
  case (Cons l ls)
  have len: "j < length (promises (deliver m l s))"
    using Cons.prems(1) by simp
  have "(promises (deliver m l s) ! j = Pending \<and> HandshakeListener j \<in> set ls) \<or>
        promises (deliver m l s) ! j = verdict m"
  proof (cases l)
    case (HandshakeListener k)
    show ?thesis
    proof (cases "k = j")
      case True
      have "promises (deliver m l s) ! j = verdict m"
        using Cons.prems HandshakeListener True
        by (auto simp: handshake_def settle_def verdict_def)
      then show ?thesis by simp
    next
      case False
      then have "promises (deliver m l s) ! j = promises s ! j"
        using HandshakeListener by (simp add: handshake_def settle_def)
      then show ?thesis using Cons.prems(2) HandshakeListener False by auto
    qed
  qed (use Cons.prems in auto)
  from Cons.IH[OF len this] show ?case by simp
qed


lemma upt_shift: "map (\<lambda>i. n + i) [0..<m] = [n..<n + m]"
  using map_add_upt[of n m] by (simp add: add.commute)

lemma messageListeners_run_renders:
  assumes t: "currentPanel s = Some w"
  shows "messageListeners (panel (instances s w)) (run (renders calls) s) =
     messageListeners (panel (instances s w)) s @
     map HandshakeListener [length (promises s)..<length (promises s) + length calls]"
proof -
  let ?p = "panel (instances s w)"
  let ?new = "map (\<lambda>i. \<lparr>reg_id = nextRegistration s + i, reg_panel = ?p,
                 reg_listener = HandshakeListener (length (promises s) + i)\<rparr>) [0..<length calls]"
  have l: "listeners (run (renders calls) s) = listeners s @ ?new"
    using run_renders_tracked_state[OF t, of calls] by blast
  have "filter (\<lambda>r. reg_panel r = ?p \<and> event_of (reg_listener r) = OnDidReceiveMessage) ?new = ?new"
    by (simp add: filter_id_conv)
  then have "messageListeners ?p (run (renders calls) s) =
      messageListeners ?p s @ map reg_listener ?new"
    by (simp add: messageListeners_def l)
  moreover have "map reg_listener ?new = map HandshakeListener (map (\<lambda>i. length (promises s) + i) [0..<length calls])"
    by (simp add: comp_def)
  ultimately show ?thesis by (simp add: upt_shift)
qed

text \<open>
  C10. Every \<open>render\<close> call attaches one more handshake closure to the message event
  of the tracked panel and pushes its handle onto the array of the tracked object,
  also when the call only reveals the panel. A message settles promises but detaches
  nothing. So after \<open>n\<close> \<open>render\<close> calls on a tracked object the \<open>n\<close> closures are
  all attached, in the order of the calls, and the next message to the panel reaches
  every one of them: each of the \<open>n\<close> promises takes the verdict of that message.
\<close>

theorem handshake_listeners_accumulate:
  "(currentPanel s = None \<longrightarrow>
      listeners (snd (render uri col s)) =
        listeners s @
        [\<lparr>reg_id = nextRegistration s, reg_panel = nextPanel s, reg_listener = DisposeListener (nextWebview s)\<rparr>,
         \<lparr>reg_id = nextRegistration s + 1, reg_panel = nextPanel s, reg_listener = HandleMessageListener\<rparr>,
         \<lparr>reg_id = nextRegistration s + 2, reg_panel = nextPanel s, reg_listener = ViewStateListener (nextWebview s)\<rparr>,
         \<lparr>reg_id = nextRegistration s + 3, reg_panel = nextPanel s,
          reg_listener = HandshakeListener (length (promises s))\<rparr>] \<and>
      disposables (instances (snd (render uri col s)) (nextWebview s)) =
        [nextRegistration s, nextRegistration s + 1, nextRegistration s + 2, nextRegistration s + 3]) \<and>
   (currentPanel s = Some w \<longrightarrow>
      listeners (snd (render uri col s)) =
        listeners s @
        [\<lparr>reg_id = nextRegistration s, reg_panel = panel (instances s w),
          reg_listener = HandshakeListener (length (promises s))\<rparr>] \<and>
      disposables (instances (snd (render uri col s)) w) =
        disposables (instances s w) @ [nextRegistration s] \<and>
      handshakes (panel (instances s w)) (run (renders calls) s) =
        handshakes (panel (instances s w)) s @
        [length (promises s)..<length (promises s) + length calls] \<and>
      disposables (instances (run (renders calls) s) w) =
        disposables (instances s w) @ [nextRegistration s..<nextRegistration s + length calls] \<and>
      (\<forall>i < length calls.
         promises (receiveMessage (panel (instances s w)) message (run (renders calls) s)) !
           (length (promises s) + i) = verdict message)) \<and>
   listeners (receiveMessage p message s) = listeners s \<and>
   instances (receiveMessage p message s) = instances s \<and>
   handshakes q (receiveMessage p message s) = handshakes q s"
proof -
  have tracked:
    "handshakes (panel (instances s w)) (run (renders calls) s) =
        handshakes (panel (instances s w)) s @
        [length (promises s)..<length (promises s) + length calls]"
    "disposables (instances (run (renders calls) s) w) =
        disposables (instances s w) @ [nextRegistration s..<nextRegistration s + length calls]"
    "\<forall>i < length calls.
         promises (receiveMessage (panel (instances s w)) message (run (renders calls) s)) !
           (length (promises s) + i) = verdict message"
    if t: "currentPanel s = Some w"
  proof -
    let ?p = "panel (instances s w)" and ?t = "run (renders calls) s"
    note st = run_renders_tracked_state[OF t, of calls]
    show "handshakes ?p ?t = handshakes ?p s @ [length (promises s)..<length (promises s) + length calls]"
      by (simp add: handshakes_def messageListeners_run_renders[OF t] handshake_ids_append handshake_ids_map)
    show "disposables (instances ?t w) =
        disposables (instances s w) @ [nextRegistration s..<nextRegistration s + length calls]"
      using st by (simp add: upt_shift)
    show "\<forall>i < length calls. promises (receiveMessage ?p message ?t) ! (length (promises s) + i) = verdict message"
    proof (intro allI impI)
      fix i assume i: "i < length calls"
      have pr: "promises ?t = promises s @ replicate (length calls) Pending"
        using st by blast
      have 1: "length (promises s) + i < length (promises ?t)"
        using i by (simp add: pr)
      have 2: "promises ?t ! (length (promises s) + i) = Pending"
        using i by (simp add: pr nth_append)
      have 3: "HandshakeListener (length (promises s) + i) \<in> set (messageListeners ?p ?t)"
        using i by (simp add: messageListeners_run_renders[OF t])
      show "promises (receiveMessage ?p message ?t) ! (length (promises s) + i) = verdict message"
        unfolding receiveMessage_def
        using fold_deliver_verdict[OF 1, of "messageListeners ?p ?t" message] 2 3 by blast
    qed
  qed
  have keep: "handshakes q (receiveMessage p message s) = handshakes q s"
    by (simp add: handshakes_def messageListeners_def)
  show ?thesis
    using tracked keep render_absent_more(7,8)[of s uri col] render_tracked_more(8,9)[of s w uri col]
    by simp
qed

theorem handshake_listeners_accumulate_witness:
  "currentPanel freshWorld = None \<and>
   currentPanel renderedWorld = Some 0 \<and>
   handshakes 0 renderedWorld = [0] \<and>
   handshakes 0 (run (renders [(extUri, Beside), (extUri, Active)]) renderedWorld) = [0, 1, 2] \<and>
   disposables (instances (run (renders [(extUri, Beside), (extUri, Active)]) renderedWorld) 0) =
     [0, 1, 2, 3, 4, 5] \<and>
   promises (receiveMessage 0 \<lparr>command = ''ready'', data = None\<rparr>
      (run (renders [(extUri, Beside), (extUri, Active)]) renderedWorld)) ! 2 = Fulfilled"
proof -
  have n: "currentPanel freshWorld = None" and z: "nextWebview freshWorld = 0" "nextPanel freshWorld = 0"
    "promises freshWorld = []" "nextRegistration freshWorld = 0" "listeners freshWorld = []"
    by (simp_all add: freshWorld_def initial_def)
  have t: "currentPanel renderedWorld = Some 0"
    unfolding renderedWorld_def by (simp add: render_absent[OF n] z)
  have r: "listeners renderedWorld =
        [\<lparr>reg_id = 0, reg_panel = 0, reg_listener = DisposeListener 0\<rparr>,
         \<lparr>reg_id = 1, reg_panel = 0, reg_listener = HandleMessageListener\<rparr>,
         \<lparr>reg_id = 2, reg_panel = 0, reg_listener = ViewStateListener 0\<rparr>,
         \<lparr>reg_id = 3, reg_panel = 0, reg_listener = HandshakeListener 0\<rparr>]"
    "disposables (instances renderedWorld 0) = [0, 1, 2, 3]"
    using handshake_listeners_accumulate[of freshWorld extUri Beside 0 "[]"
        "\<lparr>command = ''ready'', data = None\<rparr>" 0 0]
    by (simp_all add: n z renderedWorld_def)
  have more: "panel (instances renderedWorld 0) = 0" "promises renderedWorld = [Pending]"
    "nextRegistration renderedWorld = 4"
    unfolding renderedWorld_def by (simp_all add: render_absent_more[OF n] render_absent[OF n] z)
  have h: "handshakes 0 renderedWorld = [0]"
    by (simp add: handshakes_def messageListeners_def r)
  show ?thesis
    using n t h handshake_listeners_accumulate[of renderedWorld extUri Beside 0
        "[(extUri, Beside), (extUri, Active)]" "\<lparr>command = ''ready'', data = None\<rparr>" 0 0]
    by (simp add: r more verdict_def upt_rec numeral_2_eq_2)
qed

subsection \<open>Content\<close>

lemma starts_append: "starts m xs \<Longrightarrow> starts m (xs @ ys)"
  by (induction m xs rule: starts.induct) (auto split: if_splits)

lemma starts_within:
  "starts m (l @ ys) \<Longrightarrow> l \<noteq> [] \<Longrightarrow> last l \<notin> set m \<Longrightarrow> starts m l"
proof (induction m l rule: starts.induct)
  case (3 x xs y ys')
  then show ?case by (cases "ys' = []") (auto split: if_splits)
qed simp_all

lemma after_line:
  "after m l = None \<Longrightarrow> l \<noteq> [] \<Longrightarrow> last l \<notin> set m \<Longrightarrow> after m (l @ ys) = after m ys"
proof (induction l)
  case Nil
  then show ?case by simp
next
  case (Cons c l)
  have ns: "\<not> starts m (c # l)" and rest: "after m l = None"
    using Cons.prems(1) by (auto split: if_splits)
  have "\<not> starts m ((c # l) @ ys)"
    using ns starts_within[OF _ Cons.prems(2,3)] by blast
  then have "after m ((c # l) @ ys) = after m (l @ ys)" by simp
  also have "\<dots> = after m ys"
  proof (cases "l = []")
    case True
    then show ?thesis by simp
  next
    case False
    then show ?thesis using Cons.IH[OF rest False] Cons.prems(3) by simp
  qed
  finally show ?case .
qed

lemma starts_length: "starts m xs \<Longrightarrow> length m \<le> length xs"
  by (induction m xs rule: starts.induct) (auto split: if_splits)

lemma starts_long: "length m \<le> length xs \<Longrightarrow> starts m (xs @ ys) = starts m xs"
  by (induction m xs rule: starts.induct) auto

lemma after_length: "after m l \<noteq> None \<Longrightarrow> length m \<le> length l"
  by (induction l) (auto split: if_splits dest: starts_length)

lemma after_found:
  "after m l \<noteq> None \<Longrightarrow> after m (l @ ys) = map_option (\<lambda>r. r @ ys) (after m l)"
proof (induction l)
  case Nil
  then show ?case by simp
next
  case (Cons c l)
  have len: "length m \<le> length (c # l)"
    using after_length[OF Cons.prems] .
  show ?case
  proof (cases "starts m (c # l)")
    case True
    have d: "drop (length m) ((c # l) @ ys) = drop (length m) (c # l) @ ys"
      using len by (simp only: drop_append) simp
    have "after m ((c # l) @ ys) = Some (drop (length m) ((c # l) @ ys))"
      using True starts_long[OF len, of ys] by simp
    then show ?thesis using True by (simp only: d) simp
  next
    case False
    then have l: "after m l \<noteq> None" using Cons.prems by simp
    show ?thesis
      using False starts_long[OF len, of ys] Cons.IH[OF l] by simp
  qed
qed

lemma takeWhile_chunk:
  "a \<notin> set xs \<Longrightarrow> takeWhile (\<lambda>c. c \<noteq> a) (xs @ (a # zs) @ ys) = xs"
  by (induction xs) auto

lemma nonces_match:
  assumes "set n \<subseteq> set possible"
  shows "cspNonce (html_template n u) = Some n" "scriptNonce (html_template n u) = Some n"
proof -
  have q: "CHR 0x27 \<notin> set n" "CHR 0x22 \<notin> set n" "CHR ''<'' \<notin> set n"
    using assms possible_plain by blast+
  show "cspNonce (html_template n u) = Some n"
    unfolding cspNonce_def html_template_def
    by (simp add: after_line after_found takeWhile_chunk[OF q(1)] del: append_Cons)
  show "scriptNonce (html_template n u) = Some n"
    unfolding scriptNonce_def html_template_def
    by (simp add: after_line after_found after_skip[OF q(3)] takeWhile_chunk[OF q(2)] del: append_Cons)
qed

lemma update_html:
  "html (panels (update w s) (panel (instances s w))) =
     html_template (nonce_from (randomSource s) (randomCalls s)) (getWebviewUri w [''out'', ''webview.js''] s)"
  "title (panels (update w s) q) = title (panels s q)"
  "visible (panels (update w s) q) = visible (panels s q)"
  "options (panels (update w s) q) = options (panels s q)"
  "cspSource (panels (update w s) q) = cspSource (panels s q)"
  "isDisposed (panels (update w s) q) = isDisposed (panels s q)"
  "q \<noteq> panel (instances s w) \<Longrightarrow> panels (update w s) q = panels s q"
  "randomCalls (update w s) = randomCalls s + 32"
  by (simp_all add: update_eq generateNonce_eq)

lemma update2_eq:
  "update2 w s =
     s\<lparr>randomCalls := randomCalls s + 32,
       panels := (panels s)(panel (instances s w) := (panels s (panel (instances s w)))
          \<lparr>title := ''WEBVIEW'',
           html := html_template2 (nonce_from (randomSource s) (randomCalls s))
             (cspSource (panels s (panel (instances s w))))
             (getWebviewUri w [''media'', ''reset.css''] s)
             (getWebviewUri w [''media'', ''vscode.css''] s)
             (getWebviewUri w [''media'', ''index.js''] s)\<rparr>)\<rparr>"
  by (simp add: update2_def getHtmlForWebview2_def generateNonce_eq set_html_def set_title_def Let_def
      getWebviewUri_def asWebviewUri_def)

lemma changeViewState_single:
  assumes l: "viewStateListeners p s = [ViewStateListener w]" and p: "panel (instances s w) = p"
  shows "changeViewState p True s = update w (s\<lparr>panels := (panels s)(p := (panels s p)\<lparr>visible := True\<rparr>)\<rparr>)"
    and "changeViewState p False s = s\<lparr>panels := (panels s)(p := (panels s p)\<lparr>visible := False\<rparr>)\<rparr>"
proof -
  have "map reg_listener (filter (\<lambda>r. reg_panel r = p \<and> event_of (reg_listener r) = OnDidChangeViewState)
          (listeners (s\<lparr>panels := (panels s)(p := (panels s p)\<lparr>visible := vis\<rparr>)\<rparr>))) = [ViewStateListener w]" for vis
    using l by (simp add: viewStateListeners_def)
  then show "changeViewState p True s = update w (s\<lparr>panels := (panels s)(p := (panels s p)\<lparr>visible := True\<rparr>)\<rparr>)"
    and "changeViewState p False s = s\<lparr>panels := (panels s)(p := (panels s p)\<lparr>visible := False\<rparr>)\<rparr>"
    using p by (simp_all add: changeViewState_def Let_def viewStateChanged_def)
qed

lemma renderedWorld_fields:
  "currentPanel renderedWorld = Some 0"
  "panel (instances renderedWorld 0) = 0"
  "extensionUri (instances renderedWorld 0) = extUri"
  "nextPanel renderedWorld = 1"
  "randomCalls renderedWorld = 32"
  "randomSource renderedWorld = zeros"
  "title (panels renderedWorld 0) = ''Table Preview''"
  "visible (panels renderedWorld 0)"
  "cspSource (panels renderedWorld 0) = CHR 0x27 # ''self'' @ CHR 0x27 # '' https://*.vscode-cdn.net''"
  "listeners renderedWorld =
     [\<lparr>reg_id = 0, reg_panel = 0, reg_listener = DisposeListener 0\<rparr>,
      \<lparr>reg_id = 1, reg_panel = 0, reg_listener = HandleMessageListener\<rparr>,
      \<lparr>reg_id = 2, reg_panel = 0, reg_listener = ViewStateListener 0\<rparr>,
      \<lparr>reg_id = 3, reg_panel = 0, reg_listener = HandshakeListener 0\<rparr>]"
  "hostWebviewUri renderedWorld q u = ''https://file+.vscode-resource.vscode-cdn.net/'' @ u"
proof -
  have a: "currentPanel freshWorld = None" by (simp add: freshWorld_def initial_def)
  have z: "nextWebview freshWorld = 0" "nextPanel freshWorld = 0" "nextRegistration freshWorld = 0"
    "listeners freshWorld = []" "promises freshWorld = []" "hostCspSource freshWorld = CHR 0x27 # ''self'' @ CHR 0x27 # '' https://*.vscode-cdn.net''"
    by (simp_all add: freshWorld_def initial_def)
  show "currentPanel renderedWorld = Some 0" "panel (instances renderedWorld 0) = 0"
    "extensionUri (instances renderedWorld 0) = extUri"
    "nextPanel renderedWorld = 1"
    "listeners renderedWorld =
     [\<lparr>reg_id = 0, reg_panel = 0, reg_listener = DisposeListener 0\<rparr>,
      \<lparr>reg_id = 1, reg_panel = 0, reg_listener = HandleMessageListener\<rparr>,
      \<lparr>reg_id = 2, reg_panel = 0, reg_listener = ViewStateListener 0\<rparr>,
      \<lparr>reg_id = 3, reg_panel = 0, reg_listener = HandshakeListener 0\<rparr>]"
    unfolding renderedWorld_def
    by (simp_all add: render_absent[OF a] render_absent_more[OF a] z)
  have p: "panels renderedWorld 0 =
        \<lparr>viewType = Webview_viewType, title = Webview_title, viewColumn = Beside, options = getOptions extUri,
         html = html (panels renderedWorld 0),
         cspSource = CHR 0x27 # ''self'' @ CHR 0x27 # '' https://*.vscode-cdn.net'', visible = True, isDisposed = False\<rparr>"
    unfolding renderedWorld_def
    by (subst render_absent_panel[OF a]) (simp add: z)
  show "title (panels renderedWorld 0) = ''Table Preview''"
    by (subst p) (simp add: Webview_title_def)
  show "visible (panels renderedWorld 0)" by (subst p) simp
  show "cspSource (panels renderedWorld 0) = CHR 0x27 # ''self'' @ CHR 0x27 # '' https://*.vscode-cdn.net''"
    by (subst p) simp
  show "randomCalls renderedWorld = 32" "randomSource renderedWorld = zeros"
    "hostWebviewUri renderedWorld q u = ''https://file+.vscode-resource.vscode-cdn.net/'' @ u"
    unfolding renderedWorld_def
    using a
    by (simp_all add: render_def Let_def new_Promise_def split_def create_def createWebviewPanel_def
        new_Webview_def update_eq generateNonce_eq)
       (simp_all add: freshWorld_def initial_def)
qed

lemma restoredWorld_fields:
  "panel (instances restoredWorld 0) = 0"
  "randomCalls restoredWorld = 32"
  "title (panels restoredWorld 0) = ''Restored''"
  "viewStateListeners 0 restoredWorld = [ViewStateListener 0]"
proof -
  have z: "nextWebview hostPanelWorld = 0" "nextRegistration hostPanelWorld = 0"
    "listeners hostPanelWorld = []" "randomCalls hostPanelWorld = 0"
    "title (panels hostPanelWorld 0) = ''Restored''"
    by (simp_all add: hostPanelWorld_def freshWorld_def initial_def)
  show "panel (instances restoredWorld 0) = 0" "viewStateListeners 0 restoredWorld = [ViewStateListener 0]"
    by (simp_all add: restoredWorld_def viewStateListeners_def z)
  show "randomCalls restoredWorld = 32" "title (panels restoredWorld 0) = ''Restored''"
    by (simp_all add: restoredWorld_def revive_def new_Webview_def Let_def update_eq generateNonce_eq z)
qed

lemma after_clean:
  "after (a # m) l = None \<Longrightarrow> a \<notin> set (drop (length l - length m) l) \<Longrightarrow>
     after (a # m) (l @ ys) = after (a # m) ys"
proof (induction l)
  case Nil
  then show ?case by simp
next
  case (Cons c l)
  have ns: "\<not> starts (a # m) (c # l)" and rest: "after (a # m) l = None"
    using Cons.prems(1) by (auto split: if_splits)
  have no: "\<not> starts (a # m) ((c # l) @ ys)"
  proof
    assume st: "starts (a # m) ((c # l) @ ys)"
    then have ca: "c = a" by (auto split: if_splits)
    show False
    proof (cases "length (a # m) \<le> length (c # l)")
      case True
      then show ?thesis using st ns starts_long[OF True, of ys] by simp
    next
      case False
      then have "length (c # l) - length m = 0" by simp
      then show ?thesis using Cons.prems(2) ca by simp
    qed
  qed
  have tail: "a \<notin> set (drop (length l - length m) l)"
  proof (cases "length (c # l) - length m")
    case 0
    then have "length l - length m = 0" by simp
    then show ?thesis using Cons.prems(2) 0 by simp
  next
    case (Suc j)
    then have "length l - length m = j" by simp
    then show ?thesis using Cons.prems(2) Suc by simp
  qed
  have "after (a # m) ((c # l) @ ys) = after (a # m) (l @ ys)"
    using no by simp
  then show ?case using Cons.IH[OF rest tail] by simp
qed

lemma starts_cover: "starts m (l @ c # ys) \<Longrightarrow> c \<notin> set m \<Longrightarrow> starts m l"
  by (induction m l rule: starts.induct) (auto split: if_splits)

lemma after_apart:
  "after m l = None \<Longrightarrow> c \<notin> set m \<Longrightarrow> after m (l @ (c # zs) @ ys) = after m ((c # zs) @ ys)"
proof (induction l)
  case Nil
  then show ?case by simp
next
  case (Cons a l)
  have ns: "\<not> starts m (a # l)" and rest: "after m l = None"
    using Cons.prems(1) by (auto split: if_splits)
  have "\<not> starts m ((a # l) @ c # zs @ ys)"
    using ns starts_cover[OF _ Cons.prems(2)] by blast
  then have "after m ((a # l) @ (c # zs) @ ys) = after m (l @ (c # zs) @ ys)" by simp
  then show ?case using Cons.IH[OF rest Cons.prems(2)] by simp
qed

lemma nonces_match2:
  assumes "set n \<subseteq> set possible"
    and "after (CHR 0x27 # ''nonce-'') csp = None" and "CHR ''<'' \<notin> set csp"
    and "CHR ''<'' \<notin> set cssResetUri" and "CHR ''<'' \<notin> set styleUri"
  shows "cspNonce (html_template2 n csp cssResetUri styleUri scriptUri) = Some n"
    "scriptNonce (html_template2 n csp cssResetUri styleUri scriptUri) = Some n"
proof -
  have q: "CHR 0x27 \<notin> set n" "CHR 0x22 \<notin> set n" "CHR ''<'' \<notin> set n"
    using assms(1) possible_plain by blast+
  have tabs: "replicate 4 (CHR 0x09) = [CHR 0x09, CHR 0x09, CHR 0x09, CHR 0x09]"
    by (simp add: numeral_eq_Suc)
  show "cspNonce (html_template2 n csp cssResetUri styleUri scriptUri) = Some n"
    unfolding cspNonce_def html_template2_def tabs
    by (simp add: after_line after_clean after_found after_apart[OF assms(2)] takeWhile_chunk[OF q(1)] del: append_Cons)
  show "scriptNonce (html_template2 n csp cssResetUri styleUri scriptUri) = Some n"
    unfolding scriptNonce_def html_template2_def tabs
    by (simp add: after_line after_clean after_found after_skip[OF q(3)] after_skip[OF assms(3)]
        after_skip[OF assms(4)] after_skip[OF assms(5)] takeWhile_chunk[OF q(2)] del: append_Cons)
qed

lemma possible_distinct: "distinct possible" and possible_length: "length possible = 62"
  by (simp_all add: possible_def)

lemma rte_upper: "of_int (roundTiesToEven y) \<le> y + 1 / 2"
  unfolding roundTiesToEven_def Let_def by (auto; linarith)

lemma rte_nonneg: "0 \<le> y \<Longrightarrow> 0 \<le> roundTiesToEven y"
  unfolding roundTiesToEven_def Let_def by auto

lemma rte_int: "roundTiesToEven (of_int k) = k"
  unfolding roundTiesToEven_def Let_def by simp

lemma powi_powr: "(2::real) powi k = 2 powr of_int k"
  by (simp add: powr_real_of_int')

lemma powr_nat: "0 \<le> k \<Longrightarrow> 2 powr of_int k = (2::real) ^ nat k"
  by (simp add: powr_real_of_int)

lemma powr_neg_nat: "0 \<le> k \<Longrightarrow> 2 powr of_int (- k) = (1 / 2 ^ nat k :: real)"
  by (simp add: powr_minus_divide powr_nat)

text \<open>The exponent is the floor of the binary logarithm.\<close>

lemma exponent_log:
  assumes "0 < x"
  shows "exponent x = \<lfloor>log 2 x\<rfloor>"
proof (cases "1 \<le> x")
  case True
  define n where "n = \<lfloor>x\<rfloor>"
  define b where "b = bitlen n"
  have n: "0 < n" using True by (simp add: n_def)
  have bb: "2 ^ nat (b - 1) \<le> n" "n < 2 ^ nat b"
    using bitlen_bounds[OF n] by (simp_all add: b_def)
  have b1: "1 \<le> b" using n by (simp add: b_def bitlen_alt_def)
  have lo: "(2::real) ^ nat (b - 1) \<le> x"
  proof -
    have "(2::real) ^ nat (b - 1) = of_int (2 ^ nat (b - 1))" by simp
    also have "\<dots> \<le> of_int n" using bb(1) by (simp only: of_int_le_iff)
    also have "\<dots> \<le> x" by (simp add: n_def)
    finally show ?thesis .
  qed
  have hi: "x < (2::real) ^ nat b"
  proof -
    have "n + 1 \<le> 2 ^ nat b" using bb(2) by simp
    then have "of_int (n + 1) \<le> (of_int (2 ^ nat b) :: real)" by (simp only: of_int_le_iff)
    moreover have "x < of_int (n + 1)" by (simp add: n_def)
    ultimately show ?thesis by simp
  qed
  have "\<lfloor>log 2 x\<rfloor> = b - 1"
  proof (rule floor_unique)
    have "2 powr of_int (b - 1) \<le> x"
      using lo b1 by (simp only: powr_nat)
    then show "of_int (b - 1) \<le> log 2 x"
      using assms by (simp add: le_log_iff)
    have "x < 2 powr of_int b"
      using hi b1 by (simp only: powr_nat)
    then show "log 2 x < of_int (b - 1) + 1"
      using assms by (simp add: log_less_iff)
  qed
  then show ?thesis using True by (simp add: exponent_def n_def b_def)
next
  case False
  define n where "n = \<lceil>1 / x\<rceil> - 1"
  define b where "b = bitlen n"
  have x1: "1 < 1 / x" using False assms by simp
  have n: "0 < n" using x1 unfolding n_def by linarith
  have bb: "2 ^ nat (b - 1) \<le> n" "n < 2 ^ nat b"
    using bitlen_bounds[OF n] by (simp_all add: b_def)
  have b1: "1 \<le> b" using n by (simp add: b_def bitlen_alt_def)
  have lo: "1 / x \<le> (2::real) ^ nat b"
  proof -
    have "n + 1 \<le> 2 ^ nat b" using bb(2) by simp
    then have "of_int (n + 1) \<le> (of_int (2 ^ nat b) :: real)" by (simp only: of_int_le_iff)
    moreover have "1 / x \<le> of_int (n + 1)" by (simp add: n_def)
    ultimately show ?thesis by simp
  qed
  have hi: "(2::real) ^ nat (b - 1) < 1 / x"
  proof -
    have "(2::real) ^ nat (b - 1) = of_int (2 ^ nat (b - 1))" by simp
    also have "\<dots> \<le> of_int n" using bb(1) by (simp only: of_int_le_iff)
    also have "\<dots> < 1 / x" unfolding n_def by linarith
    finally show ?thesis .
  qed
  have "\<lfloor>log 2 x\<rfloor> = - b"
  proof (rule floor_unique)
    have "1 / 2 ^ nat b \<le> x"
      using lo assms by (simp add: field_simps)
    then have "2 powr of_int (- b) \<le> x"
      using b1 by (simp only: powr_neg_nat)
    then show "of_int (- b) \<le> log 2 x"
      using assms by (simp add: le_log_iff)
    have "x < 1 / 2 ^ nat (b - 1)"
      using hi assms by (simp add: field_simps)
    then have "x < 2 powr of_int (- (b - 1))"
      using b1 by (simp only: powr_neg_nat)
    then show "log 2 x < of_int (- b) + 1"
      using assms by (simp add: log_less_iff)
  qed
  then show ?thesis using False by (simp add: exponent_def n_def b_def)
qed

text \<open>
  Hence \<open>binary64\<close> is rounding to the nearest multiple of \<open>2\<^bsup>\<lfloor>log\<^sub>2 |x|\<rfloor> - 52\<^esup>\<close>.
\<close>

lemma binary64_log:
  "binary64 x =
     (if x = 0 then 0
      else let e = max \<lfloor>log 2 \<bar>x\<bar>\<rfloor> (- 1022);
               ulp = 2 powr of_int (e - 52)
           in sgn x * (of_int (roundTiesToEven (\<bar>x\<bar> / ulp)) * ulp))"
  by (simp add: binary64_def exponent_log powi_powr Let_def)

lemma binary64_nonneg: "0 \<le> x \<Longrightarrow> 0 \<le> binary64 x"
  unfolding binary64_log Let_def by (simp add: rte_nonneg)

text \<open>Below 64 the doubles are at most \<open>2\<^bsup>-47\<^esup>\<close> apart, so rounding adds at most half of that.\<close>

lemma binary64_upper:
  assumes "0 < x" "x < 64"
  shows "binary64 x \<le> x + 1 / 2 ^ 48"
proof -
  define e where "e = max \<lfloor>log 2 \<bar>x\<bar>\<rfloor> (- 1022)"
  define ulp :: real where "ulp = 2 powr of_int (e - 52)"
  have "log 2 x < 6"
    using assms by (simp add: log_less_iff)
  then have "\<lfloor>log 2 x\<rfloor> \<le> 5" by linarith
  then have e: "e \<le> 5" using assms by (simp add: e_def)
  have up: "0 < ulp" by (simp add: ulp_def)
  have "ulp \<le> 2 powr of_int (- 47)"
    unfolding ulp_def using e by (intro powr_mono) simp_all
  also have "\<dots> = 1 / 2 ^ 47"
    by (simp add: powr_minus_divide powr_realpow[symmetric])
  finally have u: "ulp \<le> 1 / 2 ^ 47" .
  have "binary64 x = of_int (roundTiesToEven (x / ulp)) * ulp"
    using assms by (simp add: binary64_log Let_def e_def ulp_def)
  also have "\<dots> \<le> (x / ulp + 1 / 2) * ulp"
    using rte_upper[of "x / ulp"] up by (intro mult_right_mono) simp_all
  also have "\<dots> = x + ulp / 2"
    using up by (simp add: field_simps)
  also have "\<dots> \<le> x + 1 / 2 ^ 48"
    using u by simp
  finally show ?thesis .
qed

text \<open>A real that is a double is its own rounding.\<close>

lemma binary64_exact:
  assumes "0 < x" "2 powr of_int e \<le> x" "x < 2 powr of_int (e + 1)" "- 1022 \<le> e"
    and "x = of_int m * 2 powr of_int (e - 52)"
  shows "binary64 x = x"
proof -
  have "\<lfloor>log 2 x\<rfloor> = e"
    using assms(1-3) by (intro floor_unique) (simp_all add: le_log_iff log_less_iff)
  then have e: "max \<lfloor>log 2 \<bar>x\<bar>\<rfloor> (- 1022) = e" using assms(1,4) by simp
  have q: "\<bar>x\<bar> / 2 powr of_int (e - 52) = of_int m"
    using assms(1,5) by simp
  have "binary64 x = of_int m * 2 powr of_int (e - 52)"
    using assms(1) unfolding binary64_log Let_def e q rte_int by simp
  then show ?thesis using assms(5) by simp
qed

lemma binary64_31: "binary64 31 = 31"
  by (rule binary64_exact[where e = 4 and m = "31 * 2 ^ 48"])
     (simp_all add: powr_minus_divide powr_realpow[symmetric])

text \<open>
  A product that is rounded up to the next integer: for the double
  \<open>r = 1162219258676257 / 2\<^bsup>51\<^esup>\<close> the exact product \<open>62 r\<close> is \<open>32 - 2\<^bsup>-50\<^esup>\<close>, which lies
  between the doubles \<open>32 - 2\<^bsup>-48\<^esup>\<close> and \<open>32\<close> and is nearer to the latter.
\<close>

lemma binary64_near_32: "binary64 (1162219258676257 / 2 ^ 51 * 62) = 32"
proof -
  let ?x = "1162219258676257 / 2 ^ 51 * 62 :: real"
  have "\<lfloor>log 2 ?x\<rfloor> = 4"
    by (intro floor_unique) (simp_all add: le_log_iff log_less_iff powr_realpow[symmetric])
  then have e: "max \<lfloor>log 2 \<bar>?x\<bar>\<rfloor> (- 1022) = 4" by simp
  have u: "2 powr of_int (4 - 52) = (1 / 2 ^ 48 :: real)"
    by (simp add: powr_minus_divide powr_realpow[symmetric])
  have y: "?x / (1 / 2 ^ 48) = 2 ^ 53 - 1 / 4" by simp
  have f: "\<lfloor>2 ^ 53 - 1 / 4 :: real\<rfloor> = 2 ^ 53 - 1"
    by (intro floor_unique) simp_all
  have "roundTiesToEven (2 ^ 53 - 1 / 4) = 2 ^ 53"
    unfolding roundTiesToEven_def Let_def f by simp
  then show ?thesis
    unfolding binary64_log Let_def e u y by simp
qed

text \<open>
  The values of \<open>Math.random\<close> are doubles from 0 up to, not including, 1; the
  largest is \<open>1 - 2\<^bsup>-53\<^esup>\<close>. For these the index is within \<open>possible\<close>.
\<close>

lemma pickIndex_range:
  assumes "0 \<le> r" "r \<le> 1 - 1 / 2 ^ 53"
  shows "0 \<le> pickIndex r" "pickIndex r < 62"
proof -
  show "0 \<le> pickIndex r"
    using binary64_nonneg[of "r * 62"] assms(1)
    by (simp add: pickIndex_def Math_floor_def multiply_def possible_length)
  have "\<lfloor>binary64 (r * 62)\<rfloor> < 62"
  proof (cases "r = 0")
    case True
    then show ?thesis by (simp add: binary64_def)
  next
    case False
    then have p: "0 < r * 62" using assms(1) by simp
    have le: "r * 62 \<le> 62 - 62 / 2 ^ 53" using assms(2) by simp
    then have lt: "r * 62 < 64" by simp
    have "binary64 (r * 62) \<le> r * 62 + 1 / 2 ^ 48"
      by (rule binary64_upper[OF p lt])
    also have "\<dots> < 62" using le by simp
    finally show ?thesis by (simp add: floor_less_iff)
  qed
  then show "pickIndex r < 62"
    by (simp add: pickIndex_def Math_floor_def multiply_def possible_length)
qed

lemma pick_in_range:
  assumes "0 \<le> r" "r \<le> 1 - 1 / 2 ^ 53"
  shows "pick r = [possible ! nat (pickIndex r)]"
    and "nat (pickIndex r) < length possible"
proof -
  note b = pickIndex_range[OF assms]
  show "pick r = [possible ! nat (pickIndex r)]"
    using b by (simp add: pick_def charAt_def possible_length)
  have "nat (pickIndex r) < 62"
    using b by linarith
  then show "nat (pickIndex r) < length possible"
    by (simp only: possible_length)
qed

lemma pick_eq_iff:
  assumes "0 \<le> r" "r \<le> 1 - 1 / 2 ^ 53" "0 \<le> r'" "r' \<le> 1 - 1 / 2 ^ 53"
  shows "pick r = pick r' \<longleftrightarrow> pickIndex r = pickIndex r'"
proof -
  have "pick r = pick r' \<longleftrightarrow> possible ! nat (pickIndex r) = possible ! nat (pickIndex r')"
    by (simp add: pick_in_range(1)[OF assms(1,2)] pick_in_range(1)[OF assms(3,4)])
  also have "\<dots> \<longleftrightarrow> nat (pickIndex r) = nat (pickIndex r')"
    using nth_eq_iff_index_eq[OF possible_distinct pick_in_range(2)[OF assms(1,2)] pick_in_range(2)[OF assms(3,4)]] .
  also have "\<dots> \<longleftrightarrow> pickIndex r = pickIndex r'"
    using pickIndex_range(1)[OF assms(1,2)] pickIndex_range(1)[OF assms(3,4)] by (simp add: nat_eq_iff)
  finally show ?thesis .
qed

lemma concat_singletons:
  "\<forall>j \<in> set js. length (f j) = 1 \<and> length (g j) = 1 \<Longrightarrow>
     concat (map f js) = concat (map g js) \<longleftrightarrow> (\<forall>j \<in> set js. f j = g j)"
proof (induction js)
  case Nil
  then show ?case by simp
next
  case (Cons j js)
  obtain x y where "f j = [x]" "g j = [y]"
    using Cons.prems by (auto simp: length_Suc_conv)
  then show ?case using Cons by auto
qed

lemma nonce_from_eq_iff:
  assumes "\<forall>j<32. 0 \<le> rnd (n + j) \<and> rnd (n + j) \<le> 1 - 1 / 2 ^ 53 \<and>
                  0 \<le> rnd (n' + j) \<and> rnd (n' + j) \<le> 1 - 1 / 2 ^ 53"
  shows "nonce_from rnd n = nonce_from rnd n' \<longleftrightarrow>
     (\<forall>j<32. pickIndex (rnd (n + j)) = pickIndex (rnd (n' + j)))"
proof -
  have len: "\<forall>j \<in> set [0..<32]. length (pick (rnd (n + j))) = 1 \<and> length (pick (rnd (n' + j))) = 1"
    using assms by (simp add: pick_in_range(1))
  have "nonce_from rnd n = nonce_from rnd n' \<longleftrightarrow>
      (\<forall>j \<in> set [0..<32]. pick (rnd (n + j)) = pick (rnd (n' + j)))"
    unfolding nonce_from_def using concat_singletons[OF len] .
  also have "\<dots> \<longleftrightarrow> (\<forall>j<32. pickIndex (rnd (n + j)) = pickIndex (rnd (n' + j)))"
    using assms by (auto simp: pick_eq_iff)
  finally show ?thesis .
qed

lemma pickIndex_zero: "pickIndex 0 = 0" and pickIndex_half: "pickIndex (1 / 2) = 31"
  and pickIndex_rounds_up: "pickIndex (1162219258676257 / 2 ^ 51) = 32"
  using binary64_31 binary64_near_32
  by (simp_all add: pickIndex_def Math_floor_def multiply_def possible_length binary64_def)

lemma pick_zero: "pick 0 = ''A''" and pick_half: "pick (1 / 2) = ''f''"
  by (simp_all add: pick_def pickIndex_zero pickIndex_half charAt_def possible_def)

lemma pick_rounds_up: "pick (1162219258676257 / 2 ^ 51) = ''g''"
  unfolding pick_def pickIndex_rounds_up by (simp add: charAt_def possible_def)

lemma nonce_constant: "\<forall>j<32. rnd (n + j) = r \<Longrightarrow> nonce_from rnd n = concat (replicate 32 (pick r))"
proof -
  assume "\<forall>j<32. rnd (n + j) = r"
  then have "map (\<lambda>j. pick (rnd (n + j))) [0..<32] = map (\<lambda>j. pick r) [0..<32]"
    by simp
  then show ?thesis
    by (simp add: nonce_from_def map_replicate_const)
qed

lemma nonce_zeros: "nonce_from zeros n = ''AAAAAAAAAAAAAAAAAAAAAAAAAAAAAAAA''"
proof -
  have "nonce_from zeros n = concat (replicate 32 (pick 0))"
    by (rule nonce_constant) (simp add: zeros_def)
  then show ?thesis by (simp add: pick_zero numeral_eq_Suc)
qed

text \<open>
  C7 (as the code has it). On a view state change, the listener regenerates the
  markup when the panel is visible: \<open>update\<close> draws a new nonce from the next 32
  values of the random source and assigns the document as the panel's content. It
  leaves the title as it is; only the \<open>update\<close> of the second variant of the class
  also sets the title (to \<open>WEBVIEW\<close>). When the panel is not visible, nothing is
  regenerated: the content, the title and the random source are as before.
\<close>

theorem view_state_regenerates:
  "(visible (panels s (panel (instances s w))) \<longrightarrow>
      viewStateChanged w s = update w s \<and>
      html (panels (viewStateChanged w s) (panel (instances s w))) =
        html_template (nonce_from (randomSource s) (randomCalls s))
          (getWebviewUri w [''out'', ''webview.js''] s) \<and>
      fst (generateNonce s) = nonce_from (randomSource s) (randomCalls s) \<and>
      randomCalls (viewStateChanged w s) = randomCalls s + 32 \<and>
      title (panels (viewStateChanged w s) (panel (instances s w))) = title (panels s (panel (instances s w)))) \<and>
   (\<not> visible (panels s (panel (instances s w))) \<longrightarrow> viewStateChanged w s = s) \<and>
   (viewStateListeners p s = [ViewStateListener w] \<longrightarrow> panel (instances s w) = p \<longrightarrow>
      html (panels (changeViewState p True s) p) =
        html_template (nonce_from (randomSource s) (randomCalls s))
          (getWebviewUri w [''out'', ''webview.js''] s) \<and>
      randomCalls (changeViewState p True s) = randomCalls s + 32 \<and>
      title (panels (changeViewState p True s) p) = title (panels s p) \<and>
      html (panels (changeViewState p False s) p) = html (panels s p) \<and>
      randomCalls (changeViewState p False s) = randomCalls s \<and>
      title (panels (changeViewState p False s) p) = title (panels s p)) \<and>
   title (panels (update2 w s) (panel (instances s w))) = ''WEBVIEW'' \<and>
   html (panels (update2 w s) (panel (instances s w))) =
     html_template2 (nonce_from (randomSource s) (randomCalls s))
       (cspSource (panels s (panel (instances s w))))
       (getWebviewUri w [''media'', ''reset.css''] s)
       (getWebviewUri w [''media'', ''vscode.css''] s)
       (getWebviewUri w [''media'', ''index.js''] s)"
proof -
  have ev: "html (panels (changeViewState p True s) p) =
        html_template (nonce_from (randomSource s) (randomCalls s))
          (getWebviewUri w [''out'', ''webview.js''] s) \<and>
      randomCalls (changeViewState p True s) = randomCalls s + 32 \<and>
      title (panels (changeViewState p True s) p) = title (panels s p) \<and>
      html (panels (changeViewState p False s) p) = html (panels s p) \<and>
      randomCalls (changeViewState p False s) = randomCalls s \<and>
      title (panels (changeViewState p False s) p) = title (panels s p)"
    if l: "viewStateListeners p s = [ViewStateListener w]" and p: "panel (instances s w) = p"
  proof -
    let ?s1 = "s\<lparr>panels := (panels s)(p := (panels s p)\<lparr>visible := True\<rparr>)\<rparr>"
    have u: "getWebviewUri w [''out'', ''webview.js''] ?s1 = getWebviewUri w [''out'', ''webview.js''] s"
      by (simp add: getWebviewUri_def asWebviewUri_def)
    have "html (panels (update w ?s1) (panel (instances ?s1 w))) =
        html_template (nonce_from (randomSource ?s1) (randomCalls ?s1)) (getWebviewUri w [''out'', ''webview.js''] ?s1)"
      by (rule update_html(1))
    then show ?thesis
      using p by (simp add: changeViewState_single[OF l p] update_html(2,8) u)
  qed
  show ?thesis
    using ev by (simp add: viewStateChanged_def update_html generateNonce_eq update2_eq)
qed


theorem view_state_regenerates_witness:
  "visible (panels renderedWorld 0) \<and>
   viewStateListeners 0 renderedWorld = [ViewStateListener 0] \<and>
   viewStateChanged 0 renderedWorld = update 0 renderedWorld \<and>
   randomCalls (changeViewState 0 True renderedWorld) = 64 \<and>
   title (panels (changeViewState 0 True renderedWorld) 0) = ''Table Preview'' \<and>
   randomCalls (changeViewState 0 False renderedWorld) = 32 \<and>
   viewStateChanged 0 (changeViewState 0 False renderedWorld) = changeViewState 0 False renderedWorld"
proof -
  have l: "viewStateListeners 0 renderedWorld = [ViewStateListener 0]"
    by (simp add: viewStateListeners_def renderedWorld_fields)
  have off: "\<not> visible (panels (changeViewState 0 False renderedWorld)
                 (panel (instances (changeViewState 0 False renderedWorld) 0)))"
    by (simp add: changeViewState_single(2)[OF l renderedWorld_fields(2)] renderedWorld_fields)
  show ?thesis
    using l off renderedWorld_fields(8)
      view_state_regenerates[of renderedWorld 0 0]
      view_state_regenerates[of "changeViewState 0 False renderedWorld" 0 0]
    by (simp add: renderedWorld_fields)
qed

text \<open>
  C7 as stated fails on the title: \<open>update()\<close> (lines 150 to 152) assigns the html
  only. A restored panel titled \<open>Restored\<close> keeps that title when it becomes
  visible, while its content is regenerated (32 more values are drawn).
\<close>

theorem view_state_regenerates_counterexample:
  "title (panels restoredWorld 0) = ''Restored'' \<and>
   randomCalls restoredWorld = 32 \<and>
   randomCalls (changeViewState 0 True restoredWorld) = 64 \<and>
   title (panels (changeViewState 0 True restoredWorld) 0) = ''Restored''"
  by (simp add: changeViewState_single(1)[OF restoredWorld_fields(4,1)] update_html restoredWorld_fields)

text \<open>
  The condition on the policy source in the second variant's document is needed: the
  source is spliced into the policy in front of the nonce, so a source that itself
  held a nonce would be read first.
\<close>

lemma origin_with_nonce_source:
  "cspNonce (html_template2 ''A'' ((CHR 0x27 # ''nonce-'') @ ''B'' @ [CHR 0x27]) [] [] []) = Some ''B''"
  unfolding cspNonce_def html_template2_def
  by (simp add: after_line after_clean after_found takeWhile_chunk del: append_Cons)




end
